theory Spec2Isabelle
  imports Complex_Main "HOL-Library.AList" "HOL-Library.Monad_Syntax"
begin

section \<open>JavaScript values as the validators see them\<close>

text \<open>
  The validators receive the result of \<^verbatim>\<open>snapshot.val()\<close>, typed \<^verbatim>\<open>any\<close>: a JSON value.
  A number is either NaN, an infinity or a finite value; only comparison, \<^verbatim>\<open>Math.max\<close>
  and the sign of a difference are used on numbers, so the finite ones are taken as reals
  (the two zeros are one value). An object is the list of its own properties in enumeration
  order, an array the list of its elements. Strings are lists of characters.
\<close>

datatype jsnum = NaN | NegInf | Fin real | PosInf

datatype jsval =
    JUndefined
  | JNull
  | JBool bool
  | JNum jsnum
  | JStr string
  | JObj "(string \<times> jsval) list"
  | JArr "jsval list"

text \<open>\<^verbatim>\<open>!value\<close> is false exactly on the truthy values.\<close>

fun truthy :: "jsval \<Rightarrow> bool" where
  "truthy JUndefined = False"
| "truthy JNull = False"
| "truthy (JBool b) = b"
| "truthy (JNum n) = (n \<noteq> NaN \<and> n \<noteq> Fin 0)"
| "truthy (JStr s) = (s \<noteq> [])"
| "truthy (JObj kvs) = True"
| "truthy (JArr xs) = True"

text \<open>\<^verbatim>\<open>typeof value === 'object'\<close>; it holds of \<^verbatim>\<open>null\<close> too.\<close>

fun typeof_object :: "jsval \<Rightarrow> bool" where
  "typeof_object JNull = True"
| "typeof_object (JObj kvs) = True"
| "typeof_object (JArr xs) = True"
| "typeof_object v = False"

text \<open>
  Property access \<^verbatim>\<open>value.name\<close> for the names the validators read (none of them is a
  property of \<^verbatim>\<open>Object.prototype\<close> or of an array): the own property, or \<^verbatim>\<open>undefined\<close>.
\<close>

fun get_prop :: "jsval \<Rightarrow> string \<Rightarrow> jsval" where
  "get_prop (JObj kvs) name = (case map_of kvs name of Some v \<Rightarrow> v | None \<Rightarrow> JUndefined)"
| "get_prop v name = JUndefined"

text \<open>
  The conversions of strings to numbers and of numbers to strings belong to the language
  runtime, not to the repository; the validators are modelled for any such runtime.
\<close>

record js_runtime =
  StringToNumber :: "string \<Rightarrow> jsnum"
  NumberToString :: "jsnum \<Rightarrow> string"
  parseInt :: "string \<Rightarrow> jsnum"

text \<open>Decimal digits: rendering a natural number, and reading a string of digits.\<close>

definition digit_char :: "nat \<Rightarrow> char" where
  "digit_char d = ''0123456789'' ! d"

fun decimal :: "nat \<Rightarrow> string" where
  "decimal n = (if n < 10 then [digit_char n] else decimal (n div 10) @ [digit_char (n mod 10)])"

declare decimal.simps [simp del]

definition is_digit :: "char \<Rightarrow> bool" where
  "is_digit c = (c \<in> set ''0123456789'')"

definition digit_value :: "char \<Rightarrow> nat" where
  "digit_value c = (of_char c :: nat) - 48"

definition digits_value :: "string \<Rightarrow> nat" where
  "digits_value s = foldl (\<lambda>a c. 10 * a + digit_value c) 0 s"

text \<open>
  A runtime for the examples. It agrees with the language on the strings and numbers the
  examples use: strings of decimal digits, strings without any digit, and natural numbers.
\<close>

definition digits_runtime :: js_runtime where
  "digits_runtime =
     \<lparr> StringToNumber =
         (\<lambda>s. if s = [] then Fin 0
              else if list_all is_digit s then Fin (real (digits_value s)) else NaN),
       NumberToString =
         (\<lambda>n. case n of NaN \<Rightarrow> ''NaN'' | NegInf \<Rightarrow> ''-Infinity'' | PosInf \<Rightarrow> ''Infinity''
                | Fin r \<Rightarrow> decimal (nat \<lfloor>r\<rfloor>)),
       parseInt =
         (\<lambda>s. if s \<noteq> [] \<and> list_all is_digit s then Fin (real (digits_value s)) else NaN) \<rparr>"

text \<open>
  \<^verbatim>\<open>Number(value)\<close> and \<^verbatim>\<open>String(value)\<close>. On an object both go through the object's
  \<^verbatim>\<open>valueOf\<close> and \<^verbatim>\<open>toString\<close>: the inherited \<^verbatim>\<open>valueOf\<close> returns the object itself, the
  inherited \<^verbatim>\<open>toString\<close> returns \<^verbatim>\<open>"[object Object]"\<close>, and an own property of either name
  shadows the inherited method with a value that is not callable (a JSON value never is).
  When \<^verbatim>\<open>toString\<close> is shadowed no primitive is obtained and a \<^verbatim>\<open>TypeError\<close> is thrown:
  the result \<open>None\<close>. The \<^verbatim>\<open>toString\<close> of an array joins the strings of its elements with
  commas, taking \<^verbatim>\<open>null\<close> and \<^verbatim>\<open>undefined\<close> as the empty string, and the number of an
  array is the number of that string.
\<close>

fun unconvertible :: "jsval \<Rightarrow> bool" where
  "unconvertible (JObj kvs) = (''toString'' \<in> set (map fst kvs))"
| "unconvertible (JArr xs) = list_ex unconvertible xs"
| "unconvertible v = False"

fun join_comma :: "string list \<Rightarrow> string" where
  "join_comma [] = []"
| "join_comma [s] = s"
| "join_comma (s # t # ts) = s @ '','' @ join_comma (t # ts)"

fun String_js :: "js_runtime \<Rightarrow> jsval \<Rightarrow> string option" where
  "String_js rt JUndefined = Some ''undefined''"
| "String_js rt JNull = Some ''null''"
| "String_js rt (JBool b) = Some (if b then ''true'' else ''false'')"
| "String_js rt (JNum n) = Some (NumberToString rt n)"
| "String_js rt (JStr s) = Some s"
| "String_js rt (JObj kvs) = (if unconvertible (JObj kvs) then None else Some ''[object Object]'')"
| "String_js rt (JArr xs) =
     map_option join_comma
       (those (map (\<lambda>x. if x = JNull \<or> x = JUndefined then Some [] else String_js rt x) xs))"

fun Number_js :: "js_runtime \<Rightarrow> jsval \<Rightarrow> jsnum option" where
  "Number_js rt JUndefined = Some NaN"
| "Number_js rt JNull = Some (Fin 0)"
| "Number_js rt (JBool b) = Some (Fin (if b then 1 else 0))"
| "Number_js rt (JNum n) = Some n"
| "Number_js rt (JStr s) = Some (StringToNumber rt s)"
| "Number_js rt (JObj kvs) = (if unconvertible (JObj kvs) then None else Some NaN)"
| "Number_js rt (JArr xs) = map_option (StringToNumber rt) (String_js rt (JArr xs))"

text \<open>Comparison of numbers: every comparison with NaN is false.\<close>

fun js_lt :: "jsnum \<Rightarrow> jsnum \<Rightarrow> bool" where
  "js_lt NaN y = False"
| "js_lt x NaN = False"
| "js_lt PosInf y = False"
| "js_lt x NegInf = False"
| "js_lt NegInf y = True"
| "js_lt x PosInf = True"
| "js_lt (Fin a) (Fin b) = (a < b)"

definition js_le :: "jsnum \<Rightarrow> jsnum \<Rightarrow> bool" where
  "js_le x y = (x \<noteq> NaN \<and> y \<noteq> NaN \<and> (x = y \<or> js_lt x y))"

text \<open>\<^verbatim>\<open>Math.max(a, b)\<close>: NaN if either argument is NaN.\<close>

definition Math_max :: "jsnum \<Rightarrow> jsnum \<Rightarrow> jsnum" where
  "Math_max a b = (if a = NaN \<or> b = NaN then NaN else if js_lt a b then b else a)"

text \<open>
  \<^verbatim>\<open>s.toLowerCase()\<close>. The result is only ever compared with \<^verbatim>\<open>'true'\<close>, and the only
  characters whose lower case is one of t, r, u, e are those letters in either case, so
  the mapping of the ASCII capitals decides every comparison.
\<close>

definition toLowerCase_char :: "char \<Rightarrow> char" where
  "toLowerCase_char c =
     (case map_of (zip ''ABCDEFGHIJKLMNOPQRSTUVWXYZ'' ''abcdefghijklmnopqrstuvwxyz'') c of
        Some l \<Rightarrow> l
      | None \<Rightarrow> c)"

definition toLowerCase :: "string \<Rightarrow> string" where
  "toLowerCase s = map toLowerCase_char s"

section \<open>Telemetry sanitizer: the field parsers\<close>

text \<open>
  \<^verbatim>\<open>parseNumeric\<close>, \<^verbatim>\<open>parseBoolean\<close> and \<^verbatim>\<open>parseTimestamp\<close> of \<^verbatim>\<open>validateTelemetryData\<close>.
  The \<^verbatim>\<open>fieldName\<close> argument is unused in the source and left out.
\<close>

definition parseNumeric :: "js_runtime \<Rightarrow> jsval \<Rightarrow> jsnum \<Rightarrow> jsnum option" where
  "parseNumeric rt v defaultValue =
     (if v = JNull \<or> v = JUndefined then Some defaultValue
      else case Number_js rt v of
             None \<Rightarrow> None
           | Some parsed \<Rightarrow> Some (if parsed = NaN then defaultValue else parsed))"

fun parseBoolean :: "jsval \<Rightarrow> bool \<Rightarrow> bool" where
  "parseBoolean JNull defaultValue = defaultValue"
| "parseBoolean JUndefined defaultValue = defaultValue"
| "parseBoolean (JBool b) defaultValue = b"
| "parseBoolean (JStr s) defaultValue = (toLowerCase s = ''true'')"
| "parseBoolean (JNum n) defaultValue = (n \<noteq> Fin 0)"
| "parseBoolean (JObj kvs) defaultValue = defaultValue"
| "parseBoolean (JArr xs) defaultValue = defaultValue"

text \<open>
  \<^verbatim>\<open>parseTimestamp\<close> reads the clock twice, for the default and for \<^verbatim>\<open>now\<close>; the two
  readings (in seconds) are the pair \<open>clk\<close>.
\<close>

definition parseTimestamp :: "js_runtime \<Rightarrow> real \<times> real \<Rightarrow> jsval \<Rightarrow> jsnum option" where
  "parseTimestamp rt clk v =
     (case parseNumeric rt v (Fin (fst clk)) of
        None \<Rightarrow> None
      | Some parsed \<Rightarrow>
          (let now = snd clk in
           Some (if js_lt parsed (Fin (now - 3600)) \<or> js_lt (Fin (now + 3600)) parsed
                 then Fin now else parsed)))"


section \<open>Telemetry sanitizer: \<^verbatim>\<open>validateTelemetryData\<close>\<close>

text \<open>
  The record \<^verbatim>\<open>TelemetryData\<close>; its fields carry the prefix \<open>td_\<close>, since the other
  records of the program use the same field names.
\<close>

record TelemetryData =
  td_current :: jsnum
  td_power :: jsnum
  td_voltage :: jsnum
  td_energy :: jsnum
  td_relayState :: bool
  td_deviceConnected :: bool
  td_timestamp :: jsnum
  td_heartbeat :: jsnum
  td_detectedWattage :: jsnum
  td_expectedCurrent :: jsnum
  td_currentThreshold :: jsnum
  td_scheduleActive :: bool
  td_scheduleStarted :: bool
  td_overcurrentTripped :: bool
  td_lastCommandId :: string
  td_lastCommandTime :: jsnum

text \<open>
  The body of the \<^verbatim>\<open>try\<close> block builds the record field by field, in the order of the
  source; a conversion that throws ends it (\<open>None\<close>), and the \<^verbatim>\<open>catch\<close> block turns that
  into \<^verbatim>\<open>null\<close>. The two range warnings only write to the console. \<open>tclk\<close> and \<open>hclk\<close>
  are the clock readings of the two calls of \<^verbatim>\<open>parseTimestamp\<close>.
\<close>

definition buildTelemetry ::
  "js_runtime \<Rightarrow> real \<times> real \<Rightarrow> real \<times> real \<Rightarrow> jsval \<Rightarrow> TelemetryData option" where
  "buildTelemetry rt tclk hclk data =
     do {
       current \<leftarrow> parseNumeric rt (get_prop data ''current'') (Fin 0);
       power \<leftarrow> parseNumeric rt (get_prop data ''power'') (Fin 0);
       voltage \<leftarrow> parseNumeric rt (get_prop data ''voltage'') (Fin 230);
       energy \<leftarrow> parseNumeric rt (get_prop data ''energy'') (Fin 0);
       timestamp \<leftarrow> parseTimestamp rt tclk (get_prop data ''timestamp'');
       heartbeat \<leftarrow> parseTimestamp rt hclk (get_prop data ''heartbeat'');
       detectedWattage \<leftarrow> parseNumeric rt (get_prop data ''detectedWattage'') (Fin 0);
       expectedCurrent \<leftarrow> parseNumeric rt (get_prop data ''expectedCurrent'') (Fin 0);
       currentThreshold \<leftarrow> parseNumeric rt (get_prop data ''currentThreshold'') (Fin 10);
       lastCommandId \<leftarrow>
         String_js rt (let v = get_prop data ''lastCommandId'' in if truthy v then v else JStr []);
       lastCommandTime \<leftarrow> parseNumeric rt (get_prop data ''lastCommandTime'') (Fin 0);
       Some \<lparr> td_current = Math_max (Fin 0) current,
              td_power = Math_max (Fin 0) power,
              td_voltage = voltage,
              td_energy = Math_max (Fin 0) energy,
              td_relayState = parseBoolean (get_prop data ''relayState'') False,
              td_deviceConnected = parseBoolean (get_prop data ''deviceConnected'') False,
              td_timestamp = timestamp,
              td_heartbeat = heartbeat,
              td_detectedWattage = Math_max (Fin 0) detectedWattage,
              td_expectedCurrent = Math_max (Fin 0) expectedCurrent,
              td_currentThreshold = Math_max (Fin 0) currentThreshold,
              td_scheduleActive = parseBoolean (get_prop data ''scheduleActive'') False,
              td_scheduleStarted = parseBoolean (get_prop data ''scheduleStarted'') False,
              td_overcurrentTripped = parseBoolean (get_prop data ''overcurrentTripped'') False,
              td_lastCommandId = lastCommandId,
              td_lastCommandTime = lastCommandTime \<rparr>
     }"

definition validateTelemetryData ::
  "js_runtime \<Rightarrow> real \<times> real \<Rightarrow> real \<times> real \<Rightarrow> jsval \<Rightarrow> TelemetryData option" where
  "validateTelemetryData rt tclk hclk data =
     (if \<not> truthy data \<or> \<not> typeof_object data then None
      else buildTelemetry rt tclk hclk data)"

text \<open>The fields whose conversion can throw: the numeric ones, the two times, the id.\<close>

definition converted_fields :: "string list" where
  "converted_fields =
     [''current'', ''power'', ''voltage'', ''energy'', ''timestamp'', ''heartbeat'',
      ''detectedWattage'', ''expectedCurrent'', ''currentThreshold'', ''lastCommandId'',
      ''lastCommandTime'']"

text \<open>
  The specification's reading of the sanitizer, for comparison with the code: a
  structured record is an object or an array; a numeric field is coerced to a number, and the default
  stands in when the value is \<^verbatim>\<open>null\<close> or \<^verbatim>\<open>undefined\<close> or the coercion gives no number; a
  time outside the window of 3600 seconds around \<open>now\<close> is replaced by \<open>now\<close>.
\<close>

definition structured_record :: "jsval \<Rightarrow> bool" where
  "structured_record data = (case data of JObj kvs \<Rightarrow> True | JArr xs \<Rightarrow> True | _ \<Rightarrow> False)"

definition spec_numberOr :: "js_runtime \<Rightarrow> jsnum \<Rightarrow> jsval \<Rightarrow> jsnum" where
  "spec_numberOr rt d v =
     (if v = JNull \<or> v = JUndefined then d
      else case Number_js rt v of
             Some n \<Rightarrow> (if n = NaN then d else n)
           | None \<Rightarrow> d)"

definition spec_window :: "real \<Rightarrow> jsnum \<Rightarrow> jsnum" where
  "spec_window now t =
     (if js_le (Fin (now - 3600)) t \<and> js_le t (Fin (now + 3600)) then t else Fin now)"

section \<open>Alert aggregator: \<^verbatim>\<open>validateAlertData\<close>\<close>

record AlertData =
  al_type :: string
  al_message :: string
  al_timestamp :: jsnum

text \<open>The filter predicate: each conjunct is tested for truthiness.\<close>

definition alert_filter :: "jsval \<Rightarrow> bool" where
  "alert_filter alert =
     (truthy alert \<and> typeof_object alert \<and> truthy (get_prop alert ''type'') \<and>
      truthy (get_prop alert ''message'') \<and> truthy (get_prop alert ''timestamp''))"

definition alert_map :: "js_runtime \<Rightarrow> jsval \<Rightarrow> AlertData option" where
  "alert_map rt alert =
     do {
       t \<leftarrow> String_js rt (get_prop alert ''type'');
       m \<leftarrow> String_js rt (get_prop alert ''message'');
       ts \<leftarrow> (case get_prop alert ''timestamp'' of
                 JStr s \<Rightarrow> Some (parseInt rt s)
               | v \<Rightarrow> Number_js rt v);
       Some \<lparr> al_type = t, al_message = m, al_timestamp = ts \<rparr>
     }"

text \<open>Subtraction of numbers, for the comparator \<^verbatim>\<open>(a, b) => b.timestamp - a.timestamp\<close>.\<close>

fun js_minus :: "jsnum \<Rightarrow> jsnum \<Rightarrow> jsnum" where
  "js_minus NaN y = NaN"
| "js_minus x NaN = NaN"
| "js_minus PosInf PosInf = NaN"
| "js_minus NegInf NegInf = NaN"
| "js_minus PosInf y = PosInf"
| "js_minus NegInf y = NegInf"
| "js_minus x PosInf = NegInf"
| "js_minus x NegInf = PosInf"
| "js_minus (Fin a) (Fin b) = Fin (a - b)"

definition alert_compare :: "AlertData \<Rightarrow> AlertData \<Rightarrow> jsnum" where
  "alert_compare a b = js_minus (al_timestamp b) (al_timestamp a)"

text \<open>
  \<^verbatim>\<open>Array.prototype.sort\<close> is stable and moves an element before another only when the
  comparator returns a positive number for the pair (NaN counts as zero). It is modelled
  as the insertion sort that carries each element leftwards past the elements that compare
  greater; \<open>sort_insert\<close> works on the sorted prefix in reverse, last element first. With
  a comparator that is a total preorder every stable sort returns this result. With a
  comparator that returns NaN for some pairs the language standard leaves the order to
  the engine, and an engine that inserts by binary search orders some batches differently;
  on a batch in which each insertion starts with a comparison that returns NaN, as the
  batch of three alerts considered below, it returns the same array.
\<close>

fun sort_insert :: "('a \<Rightarrow> 'a \<Rightarrow> jsnum) \<Rightarrow> 'a \<Rightarrow> 'a list \<Rightarrow> 'a list" where
  "sort_insert cmp x [] = [x]"
| "sort_insert cmp x (y # ys) =
     (if js_lt (Fin 0) (cmp y x) then y # sort_insert cmp x ys else x # y # ys)"

definition Array_sort :: "('a \<Rightarrow> 'a \<Rightarrow> jsnum) \<Rightarrow> 'a list \<Rightarrow> 'a list" where
  "Array_sort cmp xs = rev (fold (sort_insert cmp) xs [])"

text \<open>
  \<^verbatim>\<open>Object.values(data)\<close> are the values of the own properties in enumeration order. A
  conversion that throws inside \<^verbatim>\<open>map\<close> is caught and gives the empty array.
\<close>

fun Object_values :: "jsval \<Rightarrow> jsval list" where
  "Object_values (JObj kvs) = map snd kvs"
| "Object_values (JArr xs) = xs"
| "Object_values v = []"

definition validateAlertData :: "js_runtime \<Rightarrow> jsval \<Rightarrow> AlertData list" where
  "validateAlertData rt data =
     (if \<not> truthy data \<or> \<not> typeof_object data then []
      else case those (map (alert_map rt) (filter alert_filter (Object_values data))) of
             None \<Rightarrow> []
           | Some alertArray \<Rightarrow> take 10 (Array_sort alert_compare alertArray))"

text \<open>Most recent first: no alert is followed, anywhere later, by a more recent one.\<close>

fun sorted_descending :: "jsnum list \<Rightarrow> bool" where
  "sorted_descending [] = True"
| "sorted_descending (t # ts) = (list_all (\<lambda>u. js_le u t) ts \<and> sorted_descending ts)"


section \<open>Command registry and acknowledgment correlator\<close>

text \<open>
  \<^verbatim>\<open>generateCommandId\<close> renders \<^verbatim>\<open>Date.now()\<close> (a count of milliseconds) in decimal and
  appends nine characters of \<^verbatim>\<open>Math.random().toString(36)\<close> from position 2 on. Both
  readings come from the environment: \<open>now\<close> is the clock, \<open>rnd\<close> the rendered random
  number.
\<close>

definition substr :: "nat \<Rightarrow> nat \<Rightarrow> string \<Rightarrow> string" where
  "substr start len s = take len (drop start s)"

definition generateCommandId :: "nat \<Rightarrow> string \<Rightarrow> string" where
  "generateCommandId now rnd = ''cmd_'' @ decimal now @ ''_'' @ substr 2 9 rnd"

text \<open>
  A \<^verbatim>\<open>PendingCommand\<close> holds the \<^verbatim>\<open>resolve\<close> and \<^verbatim>\<open>reject\<close> functions of the promise that
  \<^verbatim>\<open>sendCommandWithAck\<close> returned. Promises are numbered in the order of the calls, and
  \<open>pc_handle\<close> is the number of the promise the two functions settle.
\<close>

record PendingCommand =
  pc_id :: string
  pc_type :: string
  pc_timestamp :: nat
  pc_handle :: nat

record CommandAck =
  ack_commandId :: string
  ack_type :: string
  ack_result :: string
  ack_processed :: bool
  ack_timestamp :: nat
  ack_deviceTime :: nat

text \<open>
  Every call of a \<^verbatim>\<open>resolve\<close> or \<^verbatim>\<open>reject\<close> function is recorded, with the place that
  made it, the correlation id it was made for and the promise it went to. A promise is
  settled by the first call it receives; later calls have no effect on it.
\<close>

datatype settlement = Resolve CommandAck | Reject string

datatype origin = ByAck | ByTimeout | BySweep | ByCatch

datatype call =
  Call (call_origin: origin) (call_id: string) (call_handle: nat) (call_settlement: settlement)

definition promise_state :: "call list \<Rightarrow> nat \<Rightarrow> settlement option" where
  "promise_state cs h = map_option call_settlement (find (\<lambda>c. call_handle c = h) cs)"

text \<open>
  The state: the \<^verbatim>\<open>pendingCommands\<close> map (a JavaScript \<^verbatim>\<open>Map\<close> keeps insertion order,
  and \<^verbatim>\<open>set\<close> on a present key replaces the value in place), the calls made so far, the
  invocations of \<^verbatim>\<open>sendCommandWithAck\<close> suspended at \<^verbatim>\<open>await set(...)\<close> with the
  \<^verbatim>\<open>commandId\<close> and \<^verbatim>\<open>commandType\<close> of their closure, the armed timeouts (deadline,
  \<^verbatim>\<open>commandId\<close>, \<^verbatim>\<open>commandType\<close>), and the scheduled deletions of acknowledgment records.
\<close>

record registry =
  pendingCommands :: "(string \<times> PendingCommand) list"
  calls :: "call list"
  awaiting :: "(nat \<times> string \<times> string) list"
  timers :: "(nat \<times> string \<times> string) list"
  ackDeletions :: "(nat \<times> string) list"
  nextHandle :: nat

definition init_registry :: registry where
  "init_registry =
     \<lparr> pendingCommands = [], calls = [], awaiting = [], timers = [], ackDeletions = [],
       nextHandle = 0 \<rparr>"

text \<open>
  \<^verbatim>\<open>sendCommandWithAck\<close> up to the \<^verbatim>\<open>await\<close>: the id is generated and the entry is
  registered. The clock readings of this synchronous stretch are taken as one.
\<close>

definition sendCommandWithAck_register :: "nat \<Rightarrow> string \<Rightarrow> string \<Rightarrow> registry \<Rightarrow> registry" where
  "sendCommandWithAck_register now rnd commandType s =
     (let commandId = generateCommandId now rnd;
          h = nextHandle s;
          pendingCommand =
            \<lparr> pc_id = commandId, pc_type = commandType, pc_timestamp = now, pc_handle = h \<rparr>
      in s\<lparr> pendingCommands := AList.update commandId pendingCommand (pendingCommands s),
             awaiting := awaiting s @ [(h, commandId, commandType)],
             nextHandle := h + 1 \<rparr>)"

text \<open>The write succeeded: the invocation resumes and arms its timeout, 10000 ms from now.\<close>

definition sendCommandWithAck_written :: "nat \<Rightarrow> nat \<Rightarrow> registry \<Rightarrow> registry" where
  "sendCommandWithAck_written h now s =
     (case map_of (awaiting s) h of
        None \<Rightarrow> s
      | Some (commandId, commandType) \<Rightarrow>
          s\<lparr> awaiting := AList.delete h (awaiting s),
             timers := timers s @ [(now + 10000, commandId, commandType)] \<rparr>)"

text \<open>The write failed: the \<^verbatim>\<open>catch\<close> block deletes the entry and rejects with the error.\<close>

definition sendCommandWithAck_failed :: "nat \<Rightarrow> string \<Rightarrow> registry \<Rightarrow> registry" where
  "sendCommandWithAck_failed h err s =
     (case map_of (awaiting s) h of
        None \<Rightarrow> s
      | Some (commandId, commandType) \<Rightarrow>
          s\<lparr> awaiting := AList.delete h (awaiting s),
             pendingCommands := AList.delete commandId (pendingCommands s),
             calls := calls s @ [Call ByCatch commandId h (Reject err)] \<rparr>)"

text \<open>The callback of \<^verbatim>\<open>setTimeout\<close>.\<close>

definition timeoutUpdater :: "string \<Rightarrow> string \<Rightarrow> registry \<Rightarrow> registry" where
  "timeoutUpdater commandId commandType s =
     (case map_of (pendingCommands s) commandId of
        Some cmd \<Rightarrow>
          s\<lparr> pendingCommands := AList.delete commandId (pendingCommands s),
             calls := calls s @
               [Call ByTimeout commandId (pc_handle cmd)
                  (Reject (''Command '' @ commandType @ '' timed out''))] \<rparr>
      | None \<Rightarrow> s)"

text \<open>
  The acknowledgment listener. The snapshot is the list of the acknowledgment records
  under \<^verbatim>\<open>smartSocket/commandAck\<close> (empty when there is none); a record with an empty
  \<^verbatim>\<open>commandId\<close> is skipped. A matched record is deleted from the store 5000 ms later.
\<close>

definition ackUpdater :: "nat \<Rightarrow> CommandAck \<Rightarrow> registry \<Rightarrow> registry" where
  "ackUpdater now ack s =
     (case map_of (pendingCommands s) (ack_commandId ack) of
        Some pendingCmd \<Rightarrow>
          s\<lparr> pendingCommands := AList.delete (ack_commandId ack) (pendingCommands s),
             calls := calls s @
               [Call ByAck (ack_commandId ack) (pc_handle pendingCmd) (Resolve ack)],
             ackDeletions := ackDeletions s @ [(now + 5000, ack_commandId ack)] \<rparr>
      | None \<Rightarrow> s)"

definition onAckSnapshot :: "nat \<Rightarrow> CommandAck list \<Rightarrow> registry \<Rightarrow> registry" where
  "onAckSnapshot now acks s =
     fold (\<lambda>ack s'. if ack_commandId ack \<noteq> [] then ackUpdater now ack s' else s') acks s"

text \<open>The periodic clean-up: it walks the previous map and expires the old entries.\<close>

definition cleanup_entry :: "nat \<Rightarrow> string \<times> PendingCommand \<Rightarrow> registry \<Rightarrow> registry" where
  "cleanup_entry now e s =
     (if int now - int (pc_timestamp (snd e)) > 15000
      then s\<lparr> pendingCommands := AList.delete (fst e) (pendingCommands s),
              calls := calls s @
                [Call BySweep (fst e) (pc_handle (snd e)) (Reject ''Command expired'')] \<rparr>
      else s)"

definition cleanup :: "nat \<Rightarrow> registry \<Rightarrow> registry" where
  "cleanup now s = fold (cleanup_entry now) (pendingCommands s) s"

text \<open>
  The event loop. Before an event is handled, the timeouts whose deadline has been
  reached are run, in the order in which they were armed.
\<close>

definition fireTimers :: "nat \<Rightarrow> registry \<Rightarrow> registry" where
  "fireTimers now s =
     fold (\<lambda>t s'. timeoutUpdater (fst (snd t)) (snd (snd t)) s')
          (filter (\<lambda>t. fst t \<le> now) (timers s))
          (s\<lparr> timers := filter (\<lambda>t. \<not> fst t \<le> now) (timers s) \<rparr>)"

datatype event =
    Issue nat string string
  | Written nat nat
  | WriteFailed nat nat string
  | AckSnapshot nat "CommandAck list"
  | Cleanup nat
  | Elapse nat

fun event_time :: "event \<Rightarrow> nat" where
  "event_time (Issue now rnd commandType) = now"
| "event_time (Written now h) = now"
| "event_time (WriteFailed now h err) = now"
| "event_time (AckSnapshot now acks) = now"
| "event_time (Cleanup now) = now"
| "event_time (Elapse now) = now"

fun handle_event :: "event \<Rightarrow> registry \<Rightarrow> registry" where
  "handle_event (Issue now rnd commandType) s = sendCommandWithAck_register now rnd commandType s"
| "handle_event (Written now h) s = sendCommandWithAck_written h now s"
| "handle_event (WriteFailed now h err) s = sendCommandWithAck_failed h err s"
| "handle_event (AckSnapshot now acks) s = onAckSnapshot now acks s"
| "handle_event (Cleanup now) s = cleanup now s"
| "handle_event (Elapse now) s = s"

definition step :: "event \<Rightarrow> registry \<Rightarrow> registry" where
  "step ev s = handle_event ev (fireTimers (event_time ev) s)"

definition run :: "event list \<Rightarrow> registry \<Rightarrow> registry" where
  "run evs s = fold step evs s"

text \<open>
  How often an id was issued in a run, and how often the registry (acknowledgment,
  timeout or clean-up) settled a promise for it.
\<close>

fun issues :: "string \<Rightarrow> event \<Rightarrow> bool" where
  "issues commandId (Issue now rnd commandType) = (generateCommandId now rnd = commandId)"
| "issues commandId ev = False"

definition issued :: "string \<Rightarrow> event list \<Rightarrow> nat" where
  "issued commandId evs = length (filter (issues commandId) evs)"

definition settled :: "string \<Rightarrow> registry \<Rightarrow> nat" where
  "settled commandId s =
     length (filter (\<lambda>c. call_id c = commandId \<and> call_origin c \<noteq> ByCatch) (calls s))"

definition pending_for :: "string \<Rightarrow> registry \<Rightarrow> nat" where
  "pending_for commandId s = length (filter (\<lambda>e. fst e = commandId) (pendingCommands s))"

text \<open>
  The promises that received a call of their \<^verbatim>\<open>resolve\<close> or \<^verbatim>\<open>reject\<close> for an id, from
  the registry or from the \<^verbatim>\<open>catch\<close> block of \<^verbatim>\<open>sendCommandWithAck\<close>.
\<close>

definition settled_handles :: "string \<Rightarrow> registry \<Rightarrow> nat set" where
  "settled_handles commandId s =
     set (map call_handle (filter (\<lambda>c. call_id c = commandId) (calls s)))"

text \<open>
  The ids generated in a run, in the order of the calls of \<^verbatim>\<open>sendCommandWithAck\<close>: the
  promise number \<open>h\<close> belongs to the call number \<open>h\<close>. \<open>handles_follow_issues\<close> says that
  every closure in the state (a pending entry, a suspended invocation) and every call made
  so far pairs a promise with the id that was generated for it.
\<close>

fun issue_id :: "event \<Rightarrow> string list" where
  "issue_id (Issue now rnd commandType) = [generateCommandId now rnd]"
| "issue_id ev = []"

definition issued_ids :: "event list \<Rightarrow> string list" where
  "issued_ids evs = concat (map issue_id evs)"

definition handles_follow_issues :: "string list \<Rightarrow> registry \<Rightarrow> bool" where
  "handles_follow_issues ids s =
     (nextHandle s = length ids \<and>
      (\<forall>c \<in> set (calls s). call_handle c < length ids \<and> ids ! call_handle c = call_id c) \<and>
      (\<forall>e \<in> set (pendingCommands s).
         pc_handle (snd e) < length ids \<and> ids ! pc_handle (snd e) = fst e) \<and>
      (\<forall>a \<in> set (awaiting s). fst a < length ids \<and> ids ! fst a = fst (snd a)))"


section \<open>The variant of \<^verbatim>\<open>src/app/index.tsx\<close>: \<^verbatim>\<open>sendCommand\<close>\<close>

text \<open>
  This component has no acknowledgment listener and no clean-up: the pending map is
  changed by \<^verbatim>\<open>sendCommand\<close> and its timeout only. The promise is a \<^verbatim>\<open>Promise<void>\<close>; the
  timeout callback calls the \<^verbatim>\<open>reject\<close> of its own closure, so an armed timeout carries
  the number of its promise.
\<close>

datatype ix_settlement = IxResolve | IxReject string

record ix_registry =
  ix_pendingCommands :: "(string \<times> PendingCommand) list"
  ix_calls :: "(nat \<times> ix_settlement) list"
  ix_awaiting :: "(nat \<times> string \<times> string) list"
  ix_timers :: "(nat \<times> string \<times> string \<times> nat) list"
  ix_nextHandle :: nat

definition ix_init :: ix_registry where
  "ix_init =
     \<lparr> ix_pendingCommands = [], ix_calls = [], ix_awaiting = [], ix_timers = [],
       ix_nextHandle = 0 \<rparr>"

definition ix_promise_state :: "(nat \<times> ix_settlement) list \<Rightarrow> nat \<Rightarrow> ix_settlement option" where
  "ix_promise_state cs h = map_of cs h"

definition sendCommand_register :: "nat \<Rightarrow> string \<Rightarrow> string \<Rightarrow> ix_registry \<Rightarrow> ix_registry" where
  "sendCommand_register now rnd commandType s =
     (let commandId = generateCommandId now rnd;
          h = ix_nextHandle s;
          pendingCommand =
            \<lparr> pc_id = commandId, pc_type = commandType, pc_timestamp = now, pc_handle = h \<rparr>
      in s\<lparr> ix_pendingCommands := AList.update commandId pendingCommand (ix_pendingCommands s),
             ix_awaiting := ix_awaiting s @ [(h, commandId, commandType)],
             ix_nextHandle := h + 1 \<rparr>)"

text \<open>After the write: the timeout is armed, then \<^verbatim>\<open>resolve()\<close> is called.\<close>

definition sendCommand_written :: "nat \<Rightarrow> nat \<Rightarrow> ix_registry \<Rightarrow> ix_registry" where
  "sendCommand_written h now s =
     (case map_of (ix_awaiting s) h of
        None \<Rightarrow> s
      | Some (commandId, commandType) \<Rightarrow>
          s\<lparr> ix_awaiting := AList.delete h (ix_awaiting s),
             ix_timers := ix_timers s @ [(now + 10000, commandId, commandType, h)],
             ix_calls := ix_calls s @ [(h, IxResolve)] \<rparr>)"

definition sendCommand_failed :: "nat \<Rightarrow> string \<Rightarrow> ix_registry \<Rightarrow> ix_registry" where
  "sendCommand_failed h err s =
     (case map_of (ix_awaiting s) h of
        None \<Rightarrow> s
      | Some (commandId, commandType) \<Rightarrow>
          s\<lparr> ix_awaiting := AList.delete h (ix_awaiting s),
             ix_pendingCommands := AList.delete commandId (ix_pendingCommands s),
             ix_calls := ix_calls s @ [(h, IxReject err)] \<rparr>)"

definition ix_timeoutUpdater :: "string \<Rightarrow> string \<Rightarrow> nat \<Rightarrow> ix_registry \<Rightarrow> ix_registry" where
  "ix_timeoutUpdater commandId commandType h s =
     (if map_of (ix_pendingCommands s) commandId \<noteq> None
      then s\<lparr> ix_pendingCommands := AList.delete commandId (ix_pendingCommands s),
              ix_calls := ix_calls s @
                [(h, IxReject (''Command '' @ commandType @ '' timed out''))] \<rparr>
      else s)"

definition ix_fireTimers :: "nat \<Rightarrow> ix_registry \<Rightarrow> ix_registry" where
  "ix_fireTimers now s =
     fold (\<lambda>t s'. ix_timeoutUpdater (fst (snd t)) (fst (snd (snd t))) (snd (snd (snd t))) s')
          (filter (\<lambda>t. fst t \<le> now) (ix_timers s))
          (s\<lparr> ix_timers := filter (\<lambda>t. \<not> fst t \<le> now) (ix_timers s) \<rparr>)"

section \<open>Liveness monitor\<close>

text \<open>
  The three state variables of the connection, the interval callback that checks them
  every 5000 ms, the telemetry listener and its error callback. Times are readings of
  \<^verbatim>\<open>Date.now()\<close> in milliseconds.
\<close>

record connection =
  isConnected :: bool
  lastDataReceived :: nat
  connectionRetryCount :: nat
  latestTelemetry :: "TelemetryData option"

definition init_connection :: connection where
  "init_connection =
     \<lparr> isConnected = False, lastDataReceived = 0, connectionRetryCount = 0,
       latestTelemetry = None \<rparr>"

definition connectionTimer :: "nat \<Rightarrow> connection \<Rightarrow> connection" where
  "connectionTimer now s =
     (if lastDataReceived s > 0 \<and> int now - int (lastDataReceived s) > 15000
      then s\<lparr> isConnected := False \<rparr> else s)"

definition onTelemetry ::
  "js_runtime \<Rightarrow> real \<times> real \<Rightarrow> real \<times> real \<Rightarrow> nat \<Rightarrow> jsval \<Rightarrow> connection \<Rightarrow> connection" where
  "onTelemetry rt tclk hclk now data s =
     (if truthy data
      then case validateTelemetryData rt tclk hclk data of
             Some validatedData \<Rightarrow>
               s\<lparr> isConnected := True, lastDataReceived := now, connectionRetryCount := 0,
                  latestTelemetry := Some validatedData \<rparr>
           | None \<Rightarrow> s
      else s)"

definition onTelemetryError :: "connection \<Rightarrow> connection" where
  "onTelemetryError s =
     s\<lparr> isConnected := False, connectionRetryCount := connectionRetryCount s + 1 \<rparr>"

section \<open>Schedule planner\<close>

text \<open>
  \<^verbatim>\<open>String.prototype.trim\<close> removes white space at both ends; of the characters of a
  byte string these are tab, line feed, vertical tab, form feed, carriage return, space
  and the no-break space.
\<close>

definition is_space :: "char \<Rightarrow> bool" where
  "is_space c = ((of_char c :: nat) \<in> {9, 10, 11, 12, 13, 32, 160})"

definition trim :: "string \<Rightarrow> string" where
  "trim s = rev (dropWhile is_space (rev (dropWhile is_space s)))"

text \<open>
  The regular expression \<^verbatim>\<open>/^([0-1]?[0-9]|2[0-3]):[0-5][0-9]$/\<close>: it matches strings of
  four or of five characters.
\<close>

fun timeRegex :: "string \<Rightarrow> bool" where
  "timeRegex [h, c, m1, m2] =
     (is_digit h \<and> c = CHR '':'' \<and> m1 \<in> set ''012345'' \<and> is_digit m2)"
| "timeRegex [h1, h2, c, m1, m2] =
     (((h1 \<in> set ''01'' \<and> is_digit h2) \<or> (h1 = CHR ''2'' \<and> h2 \<in> set ''0123'')) \<and>
      c = CHR '':'' \<and> m1 \<in> set ''012345'' \<and> is_digit m2)"
| "timeRegex s = False"

definition validateTimeFormat :: "string \<Rightarrow> bool" where
  "validateTimeFormat timeString = timeRegex (trim timeString)"

text \<open>
  \<^verbatim>\<open>cleanTime.split(':').map(Number)\<close>: the parts between the colons, each converted to a
  number. \<^verbatim>\<open>parseTimeToTimestamp\<close> is called on strings that passed \<^verbatim>\<open>validateTimeFormat\<close>
  only; their parts are one or two decimal digits, which \<open>digits_value\<close> converts as
  \<^verbatim>\<open>Number\<close> does.
\<close>

fun split_colon :: "string \<Rightarrow> string list" where
  "split_colon [] = [[]]"
| "split_colon (c # cs) =
     (if c = CHR '':'' then [] # split_colon cs
      else case split_colon cs of p # ps \<Rightarrow> (c # p) # ps | [] \<Rightarrow> [[c]])"

text \<open>
  A \<^verbatim>\<open>Date\<close> holds a time value: a count of milliseconds since the epoch, in UTC, of
  absolute value at most 8.64e15, or NaN (an invalid date). A time value is an \<open>int option\<close>
  here, \<open>None\<close> being NaN; \<^verbatim>\<open>TimeClip\<close> is the function of the language standard that
  maps a count outside of the range to NaN.
\<close>

definition maxTime :: int where
  "maxTime = 8640000000000000"

definition TimeClip :: "int \<Rightarrow> int option" where
  "TimeClip time = (if \<bar>time\<bar> \<le> maxTime then Some time else None)"

text \<open>
  The local time zone belongs to the device, not to the program: it is a parameter.
  \<open>LocalTZA z t True\<close> is the offset of local time from UTC, in milliseconds, at the
  instant \<open>t\<close>; \<open>LocalTZA z t False\<close> is the offset at the local time \<open>t\<close> (where a local time
  is repeated or skipped by a change of the offset, the standard takes the offset before
  the change). In a zone with daylight-saving time the offset changes twice a year.
\<close>

record time_zone =
  offset_at_instant :: "int \<Rightarrow> int"
  offset_at_local :: "int \<Rightarrow> int"

definition LocalTZA :: "time_zone \<Rightarrow> int \<Rightarrow> bool \<Rightarrow> int" where
  "LocalTZA z t isUTC = (if isUTC then offset_at_instant z t else offset_at_local z t)"

definition LocalTime :: "time_zone \<Rightarrow> int \<Rightarrow> int" where
  "LocalTime z t = t + LocalTZA z t True"

definition UTC :: "time_zone \<Rightarrow> int \<Rightarrow> int" where
  "UTC z t = t - LocalTZA z t False"

definition msPerDay :: int where
  "msPerDay = 24 * 60 * 60 * 1000"

definition Day :: "int \<Rightarrow> int" where
  "Day t = t div msPerDay"

definition TimeWithinDay :: "int \<Rightarrow> int" where
  "TimeWithinDay t = t mod msPerDay"

definition MakeTime :: "int \<Rightarrow> int \<Rightarrow> int \<Rightarrow> int \<Rightarrow> int" where
  "MakeTime hour minute sec ms = hour * 3600000 + minute * 60000 + sec * 1000 + ms"

definition MakeDate :: "int \<Rightarrow> int \<Rightarrow> int" where
  "MakeDate day time = day * msPerDay + time"

text \<open>
  \<^verbatim>\<open>date.setHours(hours, minutes, 0, 0)\<close> on a valid date: the given time of the local
  day of \<open>date\<close>, converted back to UTC with the offset at that local time.
\<close>

definition setHours :: "time_zone \<Rightarrow> int \<Rightarrow> nat \<Rightarrow> nat \<Rightarrow> int option" where
  "setHours z date hours minutes =
     (let t = LocalTime z date;
          newDate = MakeDate (Day t) (MakeTime (int hours) (int minutes) 0 0)
      in TimeClip (UTC z newDate))"

text \<open>
  \<^verbatim>\<open>date.setDate(date.getDate() + 1)\<close> on a valid date: the same local time of day on the
  next day of the local calendar (the day after the day number \<open>Day t\<close> is \<open>Day t + 1\<close>,
  whatever the month), converted back to UTC with the offset at that local time. Across a
  change of the offset the result is 23 or 25 hours after \<open>date\<close>.
\<close>

definition setDate_next :: "time_zone \<Rightarrow> int \<Rightarrow> int option" where
  "setDate_next z date =
     (let t = LocalTime z date;
          newDate = MakeDate (Day t + 1) (TimeWithinDay t)
      in TimeClip (UTC z newDate))"

text \<open>
  \<^verbatim>\<open>parseTimeToTimestamp\<close>; \<open>now\<close> is the reading of the clock by \<^verbatim>\<open>new Date()\<close>, a valid
  date. The comparison \<^verbatim>\<open>targetTime.getTime() <= now.getTime()\<close> is false when
  \<^verbatim>\<open>targetTime\<close> is invalid.
\<close>

definition parseTimeToTimestamp :: "time_zone \<Rightarrow> int \<Rightarrow> string \<Rightarrow> int option" where
  "parseTimeToTimestamp z now timeString =
     (let cleanTime = trim timeString;
          parts = map digits_value (split_colon cleanTime);
          hours = parts ! 0;
          minutes = parts ! 1;
          targetTime = setHours z now hours minutes
      in case targetTime of
           None \<Rightarrow> None
         | Some t \<Rightarrow> if t \<le> now then setDate_next z t else Some t)"

text \<open>
  \<^verbatim>\<open>handleScheduleSet\<close> either shows an alert (title and message) and returns, or hands
  the schedule record to the write of \<^verbatim>\<open>smartSocket/schedule\<close>. \<open>now1\<close> and \<open>now2\<close> are the
  clock readings of the two calls of \<^verbatim>\<open>parseTimeToTimestamp\<close>. The two times are numbers
  that may be NaN: a comparison with NaN is false, and sums, differences, quotients and
  \<^verbatim>\<open>Math.floor\<close> of NaN are NaN.
\<close>

record schedule =
  sch_active :: bool
  sch_startTime :: "int option"
  sch_endTime :: "int option"

definition time_le :: "int option \<Rightarrow> int option \<Rightarrow> bool" where
  "time_le a b = (case (a, b) of (Some x, Some y) \<Rightarrow> x \<le> y | _ \<Rightarrow> False)"

definition hours_between_exceed_24 :: "int option \<Rightarrow> int option \<Rightarrow> bool" where
  "hours_between_exceed_24 endTime startTime =
     (case (endTime, startTime) of
        (Some e, Some s) \<Rightarrow> real_of_int (e - s) / (1000 * 60 * 60) > 24
      | _ \<Rightarrow> False)"

definition handleScheduleSet ::
  "time_zone \<Rightarrow> int \<Rightarrow> int \<Rightarrow> string \<Rightarrow> string \<Rightarrow> (string \<times> string) + schedule" where
  "handleScheduleSet z now1 now2 scheduleStart scheduleEnd =
     (if trim scheduleStart = [] \<or> trim scheduleEnd = []
      then Inl (''Invalid Schedule'', ''Please set both start and end times'')
      else if \<not> validateTimeFormat scheduleStart \<or> \<not> validateTimeFormat scheduleEnd
      then Inl (''Invalid Time Format'', ''Please use HH:MM format (e.g., 14:30)'')
      else
        (let startTime = parseTimeToTimestamp z now1 scheduleStart;
             endTime0 = parseTimeToTimestamp z now2 scheduleEnd;
             endTime = (if time_le endTime0 startTime
                        then map_option (\<lambda>e. e + 24 * 60 * 60 * 1000) endTime0
                        else endTime0)
         in if hours_between_exceed_24 endTime startTime
            then Inl (''Invalid Schedule'', ''Schedule duration cannot exceed 24 hours'')
            else Inr \<lparr> sch_active = True,
                       sch_startTime = map_option (\<lambda>t. t div 1000) startTime,
                       sch_endTime = map_option (\<lambda>t. t div 1000) endTime \<rparr>))"

text \<open>
  Two time zones. In \<open>fixed_zone tz\<close> local time is ahead of UTC by \<open>tz\<close> milliseconds at
  all times (UTC itself is \<open>fixed_zone 0\<close>). \<open>new_york\<close> is the zone \<^verbatim>\<open>America/New_York\<close>
  by its rules for the year 2024: five hours behind UTC, and four hours behind from
  2024-03-10 07:00 UTC (02:00 local time, when the clocks go to 03:00) until 2024-11-03
  06:00 UTC (02:00 local time, when the clocks go back to 01:00).
\<close>

definition fixed_zone :: "int \<Rightarrow> time_zone" where
  "fixed_zone tz = \<lparr> offset_at_instant = (\<lambda>t. tz), offset_at_local = (\<lambda>t. tz) \<rparr>"

definition new_york :: time_zone where
  "new_york =
     \<lparr> offset_at_instant =
         (\<lambda>t. if 1710054000000 \<le> t \<and> t < 1730613600000 then - 14400000 else - 18000000),
       offset_at_local =
         (\<lambda>t. if 1710039600000 \<le> t \<and> t < 1730599200000 then - 14400000 else - 18000000) \<rparr>"

text \<open>
  The pattern of a time of day, stated by values, for comparison with the regular
  expression: hours of one or two digits below 24, a colon, minutes of two digits below 60.
\<close>

definition time_of_day_pattern :: "string \<Rightarrow> bool" where
  "time_of_day_pattern s =
     (case split_colon s of
        [hs, ms] \<Rightarrow>
          length hs \<in> {1, 2} \<and> list_all is_digit hs \<and> digits_value hs < 24 \<and>
          length ms = 2 \<and> list_all is_digit ms \<and> digits_value ms < 60
      | _ \<Rightarrow> False)"

section \<open>Properties of the boolean parser\<close>

lemma lower_t: "toLowerCase_char c = CHR ''t'' \<longleftrightarrow> c = CHR ''t'' \<or> c = CHR ''T''"
  by (auto simp: toLowerCase_char_def)

lemma lower_r: "toLowerCase_char c = CHR ''r'' \<longleftrightarrow> c = CHR ''r'' \<or> c = CHR ''R''"
  by (auto simp: toLowerCase_char_def)

lemma lower_u: "toLowerCase_char c = CHR ''u'' \<longleftrightarrow> c = CHR ''u'' \<or> c = CHR ''U''"
  by (auto simp: toLowerCase_char_def)

lemma lower_e: "toLowerCase_char c = CHR ''e'' \<longleftrightarrow> c = CHR ''e'' \<or> c = CHR ''E''"
  by (auto simp: toLowerCase_char_def)

lemma length_four: "length s = 4 \<longleftrightarrow> (\<exists>a b c d. s = [a, b, c, d])"
  by (auto simp: length_Suc_conv eval_nat_numeral)

lemma toLowerCase_true:
  "(toLowerCase s = ''true'') =
     (length s = 4 \<and> s ! 0 \<in> {CHR ''t'', CHR ''T''} \<and> s ! 1 \<in> {CHR ''r'', CHR ''R''} \<and>
      s ! 2 \<in> {CHR ''u'', CHR ''U''} \<and> s ! 3 \<in> {CHR ''e'', CHR ''E''})"
proof (cases "length s = 4")
  case True
  then obtain a b c d where "s = [a, b, c, d]" unfolding length_four by blast
  then show ?thesis by (simp add: toLowerCase_def lower_t lower_r lower_u lower_e)
next
  case False
  then show ?thesis by (auto simp: toLowerCase_def)
qed

lemma buildTelemetry_booleans:
  assumes "buildTelemetry rt tclk hclk data = Some r"
  shows "td_relayState r = parseBoolean (get_prop data ''relayState'') False"
    and "td_deviceConnected r = parseBoolean (get_prop data ''deviceConnected'') False"
    and "td_scheduleActive r = parseBoolean (get_prop data ''scheduleActive'') False"
    and "td_scheduleStarted r = parseBoolean (get_prop data ''scheduleStarted'') False"
    and "td_overcurrentTripped r = parseBoolean (get_prop data ''overcurrentTripped'') False"
  using assms by (auto simp: buildTelemetry_def split: Option.bind_splits)

lemma validateTelemetryData_Some:
  "validateTelemetryData rt tclk hclk data = Some r \<Longrightarrow>
   buildTelemetry rt tclk hclk data = Some r"
  by (simp add: validateTelemetryData_def split: if_splits)

text \<open>
  Claim C5, as amended. Every boolean field of the telemetry record is
  \<^verbatim>\<open>parseBoolean\<close> of the raw field with default \<open>false\<close>, and \<^verbatim>\<open>parseBoolean\<close> returns a
  native boolean as it is, maps a string to \<open>true\<close> exactly when it spells \<^verbatim>\<open>true\<close> in any
  mix of upper and lower case (the comparison is made after \<^verbatim>\<open>toLowerCase\<close>) and to
  \<open>false\<close> otherwise, maps a number to \<open>value \<noteq> 0\<close>, and gives \<open>false\<close> for \<^verbatim>\<open>null\<close>,
  \<^verbatim>\<open>undefined\<close>, objects and arrays.
\<close>

theorem parseBoolean_field_values:
  "parseBoolean (JBool b) False = b \<and>
   parseBoolean (JStr s) False =
     (length s = 4 \<and> s ! 0 \<in> {CHR ''t'', CHR ''T''} \<and> s ! 1 \<in> {CHR ''r'', CHR ''R''} \<and>
      s ! 2 \<in> {CHR ''u'', CHR ''U''} \<and> s ! 3 \<in> {CHR ''e'', CHR ''E''}) \<and>
   parseBoolean (JNum n) False = (n \<noteq> Fin 0) \<and>
   parseBoolean JNull False = False \<and>
   parseBoolean JUndefined False = False \<and>
   parseBoolean (JObj kvs) False = False \<and>
   parseBoolean (JArr xs) False = False \<and>
   (validateTelemetryData rt tclk hclk data = Some r \<longrightarrow>
      td_relayState r = parseBoolean (get_prop data ''relayState'') False \<and>
      td_deviceConnected r = parseBoolean (get_prop data ''deviceConnected'') False \<and>
      td_scheduleActive r = parseBoolean (get_prop data ''scheduleActive'') False \<and>
      td_scheduleStarted r = parseBoolean (get_prop data ''scheduleStarted'') False \<and>
      td_overcurrentTripped r = parseBoolean (get_prop data ''overcurrentTripped'') False)"
  using buildTelemetry_booleans [of rt tclk hclk data r]
    validateTelemetryData_Some [of rt tclk hclk data r]
  by (simp add: toLowerCase_true)

text \<open>
  The amended claim C5 at a record whose \<^verbatim>\<open>relayState\<close> is the string \<^verbatim>\<open>"True"\<close> and
  whose \<^verbatim>\<open>scheduleActive\<close> is absent.
\<close>

theorem parseBoolean_field_values_witness:
  "\<exists>r. validateTelemetryData digits_runtime (0, 0) (0, 0)
          (JObj [(''relayState'', JStr ''True'')]) = Some r \<and>
        td_relayState r \<and> \<not> td_scheduleActive r"
proof -
  let ?rt = digits_runtime
  let ?d = "JObj [(''relayState'', JStr ''True'')]"
  obtain r where r: "validateTelemetryData ?rt (0, 0) (0, 0) ?d = Some r"
    by (simp add: validateTelemetryData_def buildTelemetry_def parseNumeric_def
          parseTimestamp_def)
  from parseBoolean_field_values [where rt = ?rt and tclk = "(0, 0)" and hclk = "(0, 0)"
      and data = ?d and r = r] r
  have "td_relayState r = parseBoolean (get_prop ?d ''relayState'') False"
    and "td_scheduleActive r = parseBoolean (get_prop ?d ''scheduleActive'') False"
    by blast+
  then have "td_relayState r \<and> \<not> td_scheduleActive r"
    by (simp add: toLowerCase_def toLowerCase_char_def)
  with r show ?thesis by blast
qed

text \<open>
  Claim C5 as stated fails: the string \<^verbatim>\<open>"TRUE"\<close> is not the lowercase string
  \<^verbatim>\<open>"true"\<close>, and it is mapped to \<open>true\<close>.
\<close>

theorem parseBoolean_uppercase_counterexample:
  "''TRUE'' \<noteq> ''true'' \<and> parseBoolean (JStr ''TRUE'') False = True"
  by (simp add: toLowerCase_def toLowerCase_char_def)

section \<open>Properties of the telemetry sanitizer\<close>

lemma those_None_iff: "(those (map f xs) = None) = (\<exists>x \<in> set xs. f x = None)"
  by (induction xs) (auto split: option.splits)

lemma String_js_None: "(String_js rt v = None) = unconvertible v"
proof (induction rt v rule: String_js.induct)
  case (7 rt xs)
  have "(\<exists>x \<in> set xs. (if x = JNull \<or> x = JUndefined then Some [] else String_js rt x) = None) =
        (\<exists>x \<in> set xs. unconvertible x)"
    using 7 by (intro bex_cong refl) auto
  then show ?case
    by (simp add: those_None_iff list_ex_iff)
qed simp_all

lemma Number_js_None: "(Number_js rt v = None) = unconvertible v"
  using String_js_None [of rt v] by (cases v) simp_all

lemma parseNumeric_eq:
  "parseNumeric rt v d = (if unconvertible v then None else Some (spec_numberOr rt d v))"
proof (cases "Number_js rt v")
  case None
  then have u: "unconvertible v"
    by (simp add: Number_js_None)
  then have "v \<noteq> JNull" "v \<noteq> JUndefined"
    by auto
  with None u show ?thesis
    by (simp add: parseNumeric_def)
next
  case (Some n)
  then have "\<not> unconvertible v"
    using Number_js_None [of rt v] by simp
  with Some show ?thesis
    by (simp add: parseNumeric_def spec_numberOr_def)
qed

lemma spec_numberOr_not_NaN: "d \<noteq> NaN \<Longrightarrow> spec_numberOr rt d v \<noteq> NaN"
  by (auto simp: spec_numberOr_def split: option.splits)

lemma js_le_Fin_left: "js_le (Fin a) t \<longleftrightarrow> \<not> js_lt t (Fin a) \<and> t \<noteq> NaN"
  by (cases t) (auto simp: js_le_def)

lemma js_le_Fin_right: "js_le t (Fin a) \<longleftrightarrow> \<not> js_lt (Fin a) t \<and> t \<noteq> NaN"
  by (cases t) (auto simp: js_le_def)

lemma parseTimestamp_eq:
  "parseTimestamp rt clk v =
     (if unconvertible v then None
      else Some (spec_window (snd clk) (spec_numberOr rt (Fin (fst clk)) v)))"
  using spec_numberOr_not_NaN [of "Fin (fst clk)" rt v]
  by (auto simp: parseTimestamp_def parseNumeric_eq spec_window_def js_le_Fin_left
      js_le_Fin_right Let_def)

lemma spec_window_not_NaN: "spec_window now t \<noteq> NaN"
  by (auto simp: spec_window_def js_le_def)

lemma Math_max_zero:
  "x \<noteq> NaN \<Longrightarrow> js_le (Fin 0) (Math_max (Fin 0) x) \<and> Math_max (Fin 0) x \<noteq> NaN"
  by (cases x) (auto simp: Math_max_def js_le_def)

lemma lastCommandId_eq:
  "String_js rt (let v = w in if truthy v then v else JStr []) =
     (if unconvertible w then None
      else Some (if truthy w then the (String_js rt w) else []))"
proof (cases "unconvertible w")
  case True
  then have "truthy w"
    by (cases w) simp_all
  with True show ?thesis
    by (simp add: String_js_None)
next
  case False
  then obtain t where "String_js rt w = Some t"
    using String_js_None [of rt w] by auto
  with False show ?thesis
    by simp
qed

lemma buildTelemetry_None:
  "(buildTelemetry rt tclk hclk data = None) =
     (\<exists>f \<in> set converted_fields. unconvertible (get_prop data f))"
  unfolding buildTelemetry_def parseNumeric_eq parseTimestamp_eq lastCommandId_eq
    converted_fields_def
  by (simp del: get_prop.simps)

lemma buildTelemetry_numbers:
  assumes "buildTelemetry rt tclk hclk data = Some r"
  shows "td_current r = Math_max (Fin 0) (spec_numberOr rt (Fin 0) (get_prop data ''current''))"
    and "td_power r = Math_max (Fin 0) (spec_numberOr rt (Fin 0) (get_prop data ''power''))"
    and "td_voltage r = spec_numberOr rt (Fin 230) (get_prop data ''voltage'')"
    and "td_energy r = Math_max (Fin 0) (spec_numberOr rt (Fin 0) (get_prop data ''energy''))"
    and "td_timestamp r =
           spec_window (snd tclk) (spec_numberOr rt (Fin (fst tclk)) (get_prop data ''timestamp''))"
    and "td_heartbeat r =
           spec_window (snd hclk) (spec_numberOr rt (Fin (fst hclk)) (get_prop data ''heartbeat''))"
    and "td_detectedWattage r =
           Math_max (Fin 0) (spec_numberOr rt (Fin 0) (get_prop data ''detectedWattage''))"
    and "td_expectedCurrent r =
           Math_max (Fin 0) (spec_numberOr rt (Fin 0) (get_prop data ''expectedCurrent''))"
    and "td_currentThreshold r =
           Math_max (Fin 0) (spec_numberOr rt (Fin 10) (get_prop data ''currentThreshold''))"
    and "td_lastCommandTime r = spec_numberOr rt (Fin 0) (get_prop data ''lastCommandTime'')"
  using assms
  unfolding buildTelemetry_def parseNumeric_eq parseTimestamp_eq lastCommandId_eq
  by (auto simp del: get_prop.simps split: if_splits)

lemma validateTelemetryData_None:
  "(validateTelemetryData rt tclk hclk data = None) =
     (\<not> structured_record data \<or>
      (\<exists>f \<in> set converted_fields. unconvertible (get_prop data f)))"
proof (cases data)
  case (JObj kvs)
  then show ?thesis
    using buildTelemetry_None [of rt tclk hclk data]
    by (simp add: validateTelemetryData_def structured_record_def)
next
  case (JArr xs)
  then show ?thesis
    using buildTelemetry_None [of rt tclk hclk data]
    by (simp add: validateTelemetryData_def structured_record_def)
qed (simp_all add: validateTelemetryData_def structured_record_def)

text \<open>
  Claim C4, as amended. The sanitizer returns none exactly when the input is not a
  structured record or one of the converted fields (the numeric fields, the two times,
  \<^verbatim>\<open>lastCommandId\<close>) holds an object that cannot be converted to a primitive (an object
  with a property named \<^verbatim>\<open>toString\<close>, or an array that contains one), in which case the
  conversion throws and the \<^verbatim>\<open>catch\<close> block returns \<^verbatim>\<open>null\<close>. In every other
  case it returns a full record: each numeric field is the coerced number, or the field's
  default (0; 230 for voltage; 10 for currentThreshold; the clock reading for the two
  times) when the value is \<^verbatim>\<open>null\<close>, \<^verbatim>\<open>undefined\<close> or not coercible; the fields required
  to be non-negative are \<open>max(0, value)\<close>; no numeric field is NaN.
\<close>

theorem validateTelemetryData_result:
  "(validateTelemetryData rt tclk hclk data = None) =
     (\<not> structured_record data \<or>
      (\<exists>f \<in> set converted_fields. unconvertible (get_prop data f))) \<and>
   (validateTelemetryData rt tclk hclk data = Some r \<longrightarrow>
      (td_current r = Math_max (Fin 0) (spec_numberOr rt (Fin 0) (get_prop data ''current'')) \<and>
       td_power r = Math_max (Fin 0) (spec_numberOr rt (Fin 0) (get_prop data ''power'')) \<and>
       td_voltage r = spec_numberOr rt (Fin 230) (get_prop data ''voltage'') \<and>
       td_energy r = Math_max (Fin 0) (spec_numberOr rt (Fin 0) (get_prop data ''energy'')) \<and>
       td_timestamp r =
         spec_window (snd tclk) (spec_numberOr rt (Fin (fst tclk)) (get_prop data ''timestamp'')) \<and>
       td_heartbeat r =
         spec_window (snd hclk) (spec_numberOr rt (Fin (fst hclk)) (get_prop data ''heartbeat'')) \<and>
       td_detectedWattage r =
         Math_max (Fin 0) (spec_numberOr rt (Fin 0) (get_prop data ''detectedWattage'')) \<and>
       td_expectedCurrent r =
         Math_max (Fin 0) (spec_numberOr rt (Fin 0) (get_prop data ''expectedCurrent'')) \<and>
       td_currentThreshold r =
         Math_max (Fin 0) (spec_numberOr rt (Fin 10) (get_prop data ''currentThreshold'')) \<and>
       td_lastCommandTime r = spec_numberOr rt (Fin 0) (get_prop data ''lastCommandTime'')) \<and>
      (td_current r \<noteq> NaN \<and> td_power r \<noteq> NaN \<and> td_voltage r \<noteq> NaN \<and> td_energy r \<noteq> NaN \<and>
       td_timestamp r \<noteq> NaN \<and> td_heartbeat r \<noteq> NaN \<and> td_detectedWattage r \<noteq> NaN \<and>
       td_expectedCurrent r \<noteq> NaN \<and> td_currentThreshold r \<noteq> NaN \<and>
       td_lastCommandTime r \<noteq> NaN) \<and>
      (js_le (Fin 0) (td_current r) \<and> js_le (Fin 0) (td_power r) \<and>
       js_le (Fin 0) (td_energy r) \<and> js_le (Fin 0) (td_detectedWattage r) \<and>
       js_le (Fin 0) (td_expectedCurrent r) \<and> js_le (Fin 0) (td_currentThreshold r)))"
proof (intro conjI impI)
  assume "validateTelemetryData rt tclk hclk data = Some r"
  then have b: "buildTelemetry rt tclk hclk data = Some r"
    by (rule validateTelemetryData_Some)
  note n = buildTelemetry_numbers [OF b]
  show "td_current r = Math_max (Fin 0) (spec_numberOr rt (Fin 0) (get_prop data ''current''))"
    and "td_power r = Math_max (Fin 0) (spec_numberOr rt (Fin 0) (get_prop data ''power''))"
    and "td_voltage r = spec_numberOr rt (Fin 230) (get_prop data ''voltage'')"
    and "td_energy r = Math_max (Fin 0) (spec_numberOr rt (Fin 0) (get_prop data ''energy''))"
    and "td_timestamp r =
           spec_window (snd tclk) (spec_numberOr rt (Fin (fst tclk)) (get_prop data ''timestamp''))"
    and "td_heartbeat r =
           spec_window (snd hclk) (spec_numberOr rt (Fin (fst hclk)) (get_prop data ''heartbeat''))"
    and "td_detectedWattage r =
           Math_max (Fin 0) (spec_numberOr rt (Fin 0) (get_prop data ''detectedWattage''))"
    and "td_expectedCurrent r =
           Math_max (Fin 0) (spec_numberOr rt (Fin 0) (get_prop data ''expectedCurrent''))"
    and "td_currentThreshold r =
           Math_max (Fin 0) (spec_numberOr rt (Fin 10) (get_prop data ''currentThreshold''))"
    and "td_lastCommandTime r = spec_numberOr rt (Fin 0) (get_prop data ''lastCommandTime'')"
    by (rule n)+
  show "td_current r \<noteq> NaN" "td_power r \<noteq> NaN" "td_energy r \<noteq> NaN"
    "td_detectedWattage r \<noteq> NaN" "td_expectedCurrent r \<noteq> NaN" "td_currentThreshold r \<noteq> NaN"
    "js_le (Fin 0) (td_current r)" "js_le (Fin 0) (td_power r)" "js_le (Fin 0) (td_energy r)"
    "js_le (Fin 0) (td_detectedWattage r)" "js_le (Fin 0) (td_expectedCurrent r)"
    "js_le (Fin 0) (td_currentThreshold r)"
    by (simp_all only: n Math_max_zero spec_numberOr_not_NaN jsnum.distinct not_False_eq_True)
  show "td_voltage r \<noteq> NaN" "td_lastCommandTime r \<noteq> NaN"
    by (simp_all only: n spec_numberOr_not_NaN jsnum.distinct not_False_eq_True)
  show "td_timestamp r \<noteq> NaN" "td_heartbeat r \<noteq> NaN"
    by (simp_all only: n spec_window_not_NaN not_False_eq_True)
qed (rule validateTelemetryData_None)

text \<open>
  The amended claim C4 at a record with a negative current, a numeric string as power,
  a voltage that is not a number and a time far in the past.
\<close>

theorem validateTelemetryData_result_witness:
  "\<exists>r. validateTelemetryData digits_runtime (5000, 5000) (5000, 5000)
          (JObj [(''current'', JNum (Fin (-3))), (''power'', JStr ''60''),
                 (''voltage'', JStr ''high''), (''timestamp'', JNum (Fin 7))]) = Some r \<and>
        td_current r = Fin 0 \<and> td_power r = Fin 60 \<and> td_voltage r = Fin 230 \<and>
        td_timestamp r = Fin 5000 \<and> td_currentThreshold r = Fin 10"
proof -
  let ?d = "JObj [(''current'', JNum (Fin (-3))), (''power'', JStr ''60''),
                  (''voltage'', JStr ''high''), (''timestamp'', JNum (Fin 7))]"
  have "validateTelemetryData digits_runtime (5000, 5000) (5000, 5000) ?d \<noteq> None"
    using validateTelemetryData_result [of digits_runtime "(5000, 5000)" "(5000, 5000)" ?d]
    by (simp add: structured_record_def converted_fields_def)
  then obtain r where r: "validateTelemetryData digits_runtime (5000, 5000) (5000, 5000) ?d = Some r"
    by blast
  from validateTelemetryData_result [of digits_runtime "(5000, 5000)" "(5000, 5000)" ?d r] r
  have "td_current r = Math_max (Fin 0) (spec_numberOr digits_runtime (Fin 0) (get_prop ?d ''current''))"
    and "td_power r = Math_max (Fin 0) (spec_numberOr digits_runtime (Fin 0) (get_prop ?d ''power''))"
    and "td_voltage r = spec_numberOr digits_runtime (Fin 230) (get_prop ?d ''voltage'')"
    and "td_timestamp r =
           spec_window 5000 (spec_numberOr digits_runtime (Fin 5000) (get_prop ?d ''timestamp''))"
    and "td_currentThreshold r =
           Math_max (Fin 0) (spec_numberOr digits_runtime (Fin 10) (get_prop ?d ''currentThreshold''))"
    by simp_all
  then have "td_current r = Fin 0 \<and> td_power r = Fin 60 \<and> td_voltage r = Fin 230 \<and>
             td_timestamp r = Fin 5000 \<and> td_currentThreshold r = Fin 10"
    by (simp add: spec_numberOr_def spec_window_def Math_max_def js_le_def digits_runtime_def
        is_digit_def digits_value_def digit_value_def)
  with r show ?thesis by blast
qed

text \<open>
  Claim C4 as stated fails: the input below is a structured record, and the sanitizer
  returns none for it. Its \<^verbatim>\<open>current\<close> is an object with a property named
  \<^verbatim>\<open>toString\<close>, on which \<^verbatim>\<open>Number\<close> throws.
\<close>

theorem validateTelemetryData_rejects_record_counterexample:
  "structured_record (JObj [(''current'', JObj [(''toString'', JNum (Fin 1))])]) \<and>
   validateTelemetryData digits_runtime (5000, 5000) (5000, 5000)
     (JObj [(''current'', JObj [(''toString'', JNum (Fin 1))])]) = None"
  by (simp add: structured_record_def validateTelemetryData_def buildTelemetry_def
      parseNumeric_def)

section \<open>Properties of the alert aggregator\<close>

lemma compare_positive: "js_lt (Fin 0) (js_minus b a) = js_lt a b"
  by (cases a; cases b) simp_all

lemma js_le_total: "a \<noteq> NaN \<Longrightarrow> b \<noteq> NaN \<Longrightarrow> js_lt a b \<or> js_le b a"
  by (cases a; cases b) (auto simp: js_le_def)

lemma js_lt_le: "js_lt a b \<Longrightarrow> js_le a b"
  by (cases a; cases b) (auto simp: js_le_def)

lemma js_le_trans: "js_le a b \<Longrightarrow> js_le b c \<Longrightarrow> js_le a c"
  by (cases a; cases b; cases c) (auto simp: js_le_def)

lemma set_sort_insert: "set (sort_insert cmp x ys) = insert x (set ys)"
  by (induction ys) auto

lemma set_fold_sort_insert: "set (fold (sort_insert cmp) xs acc) = set xs \<union> set acc"
  by (induction xs arbitrary: acc) (auto simp: set_sort_insert)

lemma length_sort_insert: "length (sort_insert cmp x ys) = Suc (length ys)"
  by (induction ys) auto

lemma sorted_sort_insert:
  assumes "al_timestamp x \<noteq> NaN" "\<forall>y \<in> set ys. al_timestamp y \<noteq> NaN"
    and "sorted_wrt (\<lambda>a b. js_le (al_timestamp a) (al_timestamp b)) ys"
  shows "sorted_wrt (\<lambda>a b. js_le (al_timestamp a) (al_timestamp b))
           (sort_insert alert_compare x ys)"
  using assms
proof (induction ys)
  case Nil
  then show ?case by simp
next
  case (Cons y ys)
  show ?case
  proof (cases "js_lt (al_timestamp y) (al_timestamp x)")
    case True
    then have "js_le (al_timestamp y) (al_timestamp x)"
      by (rule js_lt_le)
    with True Cons show ?thesis
      by (auto simp: alert_compare_def compare_positive set_sort_insert)
  next
    case False
    with Cons.prems have le: "js_le (al_timestamp x) (al_timestamp y)"
      using js_le_total [of "al_timestamp y" "al_timestamp x"] by simp
    have "js_le (al_timestamp x) (al_timestamp z)" if "z \<in> set ys" for z
      using le Cons.prems(3) that js_le_trans by auto
    with False le Cons.prems show ?thesis
      by (auto simp: alert_compare_def compare_positive)
  qed
qed

lemma sorted_fold_sort_insert:
  "\<forall>x \<in> set xs. al_timestamp x \<noteq> NaN \<Longrightarrow> \<forall>y \<in> set acc. al_timestamp y \<noteq> NaN \<Longrightarrow>
   sorted_wrt (\<lambda>a b. js_le (al_timestamp a) (al_timestamp b)) acc \<Longrightarrow>
   sorted_wrt (\<lambda>a b. js_le (al_timestamp a) (al_timestamp b))
     (fold (sort_insert alert_compare) xs acc)"
proof (induction xs arbitrary: acc)
  case Nil
  then show ?case by simp
next
  case (Cons x xs)
  have "sorted_wrt (\<lambda>a b. js_le (al_timestamp a) (al_timestamp b))
          (sort_insert alert_compare x acc)"
    using Cons.prems by (intro sorted_sort_insert) simp_all
  moreover have "\<forall>y \<in> set (sort_insert alert_compare x acc). al_timestamp y \<noteq> NaN"
    using Cons.prems by (simp add: set_sort_insert)
  moreover have "\<forall>x \<in> set xs. al_timestamp x \<noteq> NaN"
    using Cons.prems by simp
  ultimately show ?case
    using Cons.IH by simp
qed

lemma sorted_descending_wrt:
  "sorted_descending ts = sorted_wrt (\<lambda>t u. js_le u t) ts"
  by (induction ts) (auto simp: list_all_iff)

lemma Array_sort_sorted:
  assumes "\<forall>x \<in> set xs. al_timestamp x \<noteq> NaN"
  shows "sorted_descending (map al_timestamp (Array_sort alert_compare xs))"
proof -
  have "sorted_wrt (\<lambda>a b. js_le (al_timestamp a) (al_timestamp b))
          (fold (sort_insert alert_compare) xs [])"
    using assms by (intro sorted_fold_sort_insert) simp_all
  then have "sorted_wrt (\<lambda>a b. js_le (al_timestamp b) (al_timestamp a))
          (Array_sort alert_compare xs)"
    by (simp add: Array_sort_def sorted_wrt_rev)
  then show ?thesis
    by (simp add: sorted_descending_wrt sorted_wrt_map)
qed

lemma set_Array_sort: "set (Array_sort cmp xs) = set xs"
  by (simp add: Array_sort_def set_fold_sort_insert)

lemma those_Some_set:
  "those (map f xs) = Some ys \<Longrightarrow> set ys = {y. \<exists>x \<in> set xs. f x = Some y}"
proof (induction xs arbitrary: ys)
  case Nil
  then show ?case by simp
next
  case (Cons x xs)
  then show ?case
    by (auto split: option.splits)
qed

text \<open>
  What holds of the aggregator on every batch: a non-record gives the empty sequence, the
  result has at most 10 alerts, every alert of the result is the conversion of an entry
  whose \<^verbatim>\<open>type\<close>, \<^verbatim>\<open>message\<close> and \<^verbatim>\<open>timestamp\<close> are present and truthy, and the result is
  in descending order of timestamp provided that no timestamp converts to NaN.
\<close>

lemma validateAlertData_general:
  "(\<not> structured_record data \<longrightarrow> validateAlertData rt data = []) \<and>
   length (validateAlertData rt data) \<le> 10 \<and>
   (\<forall>a \<in> set (validateAlertData rt data).
      \<exists>v \<in> set (Object_values data). alert_filter v \<and> alert_map rt v = Some a) \<and>
   ((\<forall>v \<in> set (Object_values data). \<forall>a. alert_filter v \<and> alert_map rt v = Some a \<longrightarrow>
        al_timestamp a \<noteq> NaN) \<longrightarrow>
    sorted_descending (map al_timestamp (validateAlertData rt data)))"
proof (cases "structured_record data")
  case False
  then have "validateAlertData rt data = []"
    by (cases data) (simp_all add: validateAlertData_def structured_record_def)
  then show ?thesis by simp
next
  case True
  then have g: "\<not> (\<not> truthy data \<or> \<not> typeof_object data)"
    by (cases data) (simp_all add: structured_record_def)
  let ?xs = "filter alert_filter (Object_values data)"
  show ?thesis
  proof (cases "those (map (alert_map rt) ?xs)")
    case None
    with g have "validateAlertData rt data = []"
      by (simp add: validateAlertData_def)
    then show ?thesis by simp
  next
    case (Some alertArray)
    have v: "validateAlertData rt data = take 10 (Array_sort alert_compare alertArray)"
      using g Some by (simp add: validateAlertData_def)
    have s: "set alertArray = {y. \<exists>x \<in> set ?xs. alert_map rt x = Some y}"
      using Some by (rule those_Some_set)
    have "set (validateAlertData rt data) \<subseteq> set alertArray"
      unfolding v using set_take_subset [of 10 "Array_sort alert_compare alertArray"]
      by (simp add: set_Array_sort)
    then have m: "\<forall>a \<in> set (validateAlertData rt data).
      \<exists>v \<in> set (Object_values data). alert_filter v \<and> alert_map rt v = Some a"
      unfolding s by auto
    have "sorted_descending (map al_timestamp (validateAlertData rt data))"
      if "\<forall>v \<in> set (Object_values data). \<forall>a. alert_filter v \<and> alert_map rt v = Some a \<longrightarrow>
          al_timestamp a \<noteq> NaN"
    proof -
      from that have "\<forall>x \<in> set alertArray. al_timestamp x \<noteq> NaN"
        unfolding s by auto
      then have "sorted_descending (map al_timestamp (Array_sort alert_compare alertArray))"
        by (rule Array_sort_sorted)
      then show ?thesis
        unfolding v sorted_descending_wrt
        by (simp add: take_map [symmetric] sorted_wrt_take)
    qed
    moreover have "length (validateAlertData rt data) \<le> 10"
      unfolding v by simp
    ultimately show ?thesis
      using m True by blast
  qed
qed

subsection \<open>A timestamp that is not a numeral\<close>

text \<open>
  Claim C6 at a batch of three alerts with the timestamps \<open>100\<close>, \<^verbatim>\<open>"soon"\<close> and \<open>200\<close>.
  \<^verbatim>\<open>parseInt("soon")\<close> is NaN, every comparison with that alert returns NaN, the sort
  leaves the three alerts where they are, and the result is not in descending order of
  timestamp: the alert of time \<open>100\<close> comes before the alert of time \<open>200\<close>.
\<close>

theorem validateAlertData_unsorted_on_NaN:
  "map al_timestamp
     (validateAlertData digits_runtime
        (JObj [(''a'', JObj [(''type'', JStr ''overcurrent''), (''message'', JStr ''trip''),
                             (''timestamp'', JNum (Fin 100))]),
               (''b'', JObj [(''type'', JStr ''overcurrent''), (''message'', JStr ''trip''),
                             (''timestamp'', JStr ''soon'')]),
               (''c'', JObj [(''type'', JStr ''overcurrent''), (''message'', JStr ''trip''),
                             (''timestamp'', JNum (Fin 200))])]))
     = [Fin 100, NaN, Fin 200] \<and>
   \<not> sorted_descending [Fin 100, NaN, Fin 200]"
  by (simp add: validateAlertData_def alert_filter_def alert_map_def Array_sort_def
      alert_compare_def digits_runtime_def is_digit_def js_le_def)

text \<open>
  Claim C6 at the same batch: the result of the aggregator is not sorted by descending
  timestamp.
\<close>

theorem validateAlertData_unsorted_on_NaN_witness:
  "\<not> sorted_descending
       (map al_timestamp
          (validateAlertData digits_runtime
             (JObj [(''a'', JObj [(''type'', JStr ''overcurrent''), (''message'', JStr ''trip''),
                                  (''timestamp'', JNum (Fin 100))]),
                    (''b'', JObj [(''type'', JStr ''overcurrent''), (''message'', JStr ''trip''),
                                  (''timestamp'', JStr ''soon'')]),
                    (''c'', JObj [(''type'', JStr ''overcurrent''), (''message'', JStr ''trip''),
                                  (''timestamp'', JNum (Fin 200))])])))"
  using validateAlertData_unsorted_on_NaN by (simp only: not_False_eq_True)

section \<open>Properties of the liveness monitor\<close>

text \<open>
  Claim C7, as amended. The periodic check moves a connected monitor to Disconnected if
  and only if an update has been accepted before and strictly more than 15000 ms have
  passed since the last accepted update; it never connects and it leaves
  \<^verbatim>\<open>lastDataReceived\<close> and the retry count alone. Every telemetry update that the sanitizer
  accepts makes the monitor Connected, sets \<^verbatim>\<open>lastDataReceived\<close> to the current time and
  resets the retry count to 0.
\<close>

theorem liveness_transitions:
  "(isConnected s \<longrightarrow>
      (\<not> isConnected (connectionTimer now s)) =
        (0 < lastDataReceived s \<and> lastDataReceived s + 15000 < now)) \<and>
   (\<not> isConnected s \<longrightarrow> \<not> isConnected (connectionTimer now s)) \<and>
   lastDataReceived (connectionTimer now s) = lastDataReceived s \<and>
   connectionRetryCount (connectionTimer now s) = connectionRetryCount s \<and>
   (validateTelemetryData rt tclk hclk data = Some v \<longrightarrow>
      isConnected (onTelemetry rt tclk hclk now data s) \<and>
      lastDataReceived (onTelemetry rt tclk hclk now data s) = now \<and>
      connectionRetryCount (onTelemetry rt tclk hclk now data s) = 0 \<and>
      latestTelemetry (onTelemetry rt tclk hclk now data s) = Some v)"
proof -
  have "truthy data" if "validateTelemetryData rt tclk hclk data = Some v"
    using that by (simp add: validateTelemetryData_def split: if_splits)
  then show ?thesis
    by (auto simp: connectionTimer_def onTelemetry_def)
qed

text \<open>
  The amended claim C7 on a monitor that accepted an update at time 1000: the check at
  16001 disconnects it.
\<close>

theorem liveness_transitions_witness:
  "isConnected (onTelemetry digits_runtime (1, 1) (1, 1) 1000
                  (JObj [(''voltage'', JNum (Fin 230))]) init_connection) \<and>
   \<not> isConnected (connectionTimer 16001
        (onTelemetry digits_runtime (1, 1) (1, 1) 1000
           (JObj [(''voltage'', JNum (Fin 230))]) init_connection))"
proof -
  let ?d = "JObj [(''voltage'', JNum (Fin 230))]"
  let ?s = "onTelemetry digits_runtime (1, 1) (1, 1) 1000 ?d init_connection"
  have "validateTelemetryData digits_runtime (1, 1) (1, 1) ?d \<noteq> None"
    by (simp add: validateTelemetryData_None structured_record_def converted_fields_def)
  then obtain v where v: "validateTelemetryData digits_runtime (1, 1) (1, 1) ?d = Some v"
    by blast
  from liveness_transitions [of init_connection 1000 digits_runtime "(1, 1)" "(1, 1)" ?d v] v
  have a: "isConnected ?s" and l: "lastDataReceived ?s = 1000"
    by simp_all
  from liveness_transitions [of ?s 16001] a l
  have "\<not> isConnected (connectionTimer 16001 ?s)"
    by simp
  with a show ?thesis by simp
qed

text \<open>
  Claim C7 as stated fails at the boundary: an update is accepted at time 1000, the check
  runs at 16000, when 15 seconds have elapsed, and the monitor is still Connected.
\<close>

theorem liveness_boundary_counterexample:
  "lastDataReceived (onTelemetry digits_runtime (1, 1) (1, 1) 1000
                       (JObj [(''voltage'', JNum (Fin 230))]) init_connection) = 1000 \<and>
   (15000::int) \<le> int 16000 - int 1000 \<and>
   isConnected (connectionTimer 16000
     (onTelemetry digits_runtime (1, 1) (1, 1) 1000
        (JObj [(''voltage'', JNum (Fin 230))]) init_connection))"
  by (simp add: connectionTimer_def onTelemetry_def validateTelemetryData_def
      buildTelemetry_def parseNumeric_def parseTimestamp_def init_connection_def)

section \<open>Properties of the schedule planner\<close>

lemma split_colon_length:
  "length (concat (split_colon s)) + length (split_colon s) = Suc (length s)"
  by (induction s) (auto split: list.splits)

lemma split_colon_two_length:
  "split_colon s = [hs, ms] \<Longrightarrow> length s = Suc (length hs + length ms)"
  using split_colon_length [of s] by simp

lemma is_digit_value: "is_digit c \<Longrightarrow> digit_value c < 10"
  by (auto simp: is_digit_def digit_value_def)

lemma low_digit: "c \<in> set ''012345'' \<longleftrightarrow> is_digit c \<and> digit_value c < 6"
  by (auto simp: is_digit_def digit_value_def)

lemma bin_digit: "c \<in> set ''01'' \<longleftrightarrow> is_digit c \<and> digit_value c < 2"
  by (auto simp: is_digit_def digit_value_def)

lemma quad_digit: "c \<in> set ''0123'' \<longleftrightarrow> is_digit c \<and> digit_value c < 4"
  by (auto simp: is_digit_def digit_value_def)

lemma two_digit: "c = CHR ''2'' \<longleftrightarrow> is_digit c \<and> digit_value c = 2"
  by (auto simp: is_digit_def digit_value_def)

lemma colon_not_digit: "\<not> is_digit CHR '':''"
  by (simp add: is_digit_def)

lemma digits_value_simps:
  "digits_value [a] = digit_value a"
  "digits_value [a, b] = 10 * digit_value a + digit_value b"
  by (simp_all add: digits_value_def)

lemma timeRegex_four_digits:
  "timeRegex [h, c, m1, m2] =
     (is_digit h \<and> c = CHR '':'' \<and> (is_digit m1 \<and> digit_value m1 < 6) \<and> is_digit m2)"
  by (simp only: timeRegex.simps low_digit)

lemma timeRegex_five_digits:
  "timeRegex [h1, h2, c, m1, m2] =
     ((((is_digit h1 \<and> digit_value h1 < 2) \<and> is_digit h2) \<or>
       ((is_digit h1 \<and> digit_value h1 = 2) \<and> (is_digit h2 \<and> digit_value h2 < 4))) \<and>
      c = CHR '':'' \<and> (is_digit m1 \<and> digit_value m1 < 6) \<and> is_digit m2)"
  by (simp only: timeRegex.simps low_digit bin_digit quad_digit two_digit)

lemma timeRegex_four:
  "timeRegex [h, c, m1, m2] = time_of_day_pattern [h, c, m1, m2]"
  unfolding timeRegex_four_digits
  using is_digit_value [of h] is_digit_value [of m1] is_digit_value [of m2] colon_not_digit
  by (cases "h = CHR '':''"; cases "c = CHR '':''"; cases "m1 = CHR '':''";
      cases "m2 = CHR '':''")
     (auto simp: time_of_day_pattern_def digits_value_simps)

lemma timeRegex_five:
  "timeRegex [h1, h2, c, m1, m2] = time_of_day_pattern [h1, h2, c, m1, m2]"
  unfolding timeRegex_five_digits
  using is_digit_value [of h1] is_digit_value [of h2] is_digit_value [of m1]
    is_digit_value [of m2] colon_not_digit
  by (cases "h1 = CHR '':''"; cases "h2 = CHR '':''"; cases "c = CHR '':''";
      cases "m1 = CHR '':''"; cases "m2 = CHR '':''")
     (auto simp: time_of_day_pattern_def digits_value_simps)

lemma timeRegex_pattern: "timeRegex s = time_of_day_pattern s"
proof (cases s rule: timeRegex.cases)
  fix h c m1 m2
  assume "s = [h, c, m1, m2]"
  then show ?thesis by (simp only: timeRegex_four)
next
  fix h1 h2 c m1 m2
  assume "s = [h1, h2, c, m1, m2]"
  then show ?thesis by (simp only: timeRegex_five)
next
  assume "s = []"
  then show ?thesis by (simp add: time_of_day_pattern_def)
next
  fix a
  assume "s = [a]"
  then show ?thesis by (simp add: time_of_day_pattern_def)
next
  fix a b
  assume "s = [a, b]"
  then show ?thesis by (auto simp add: time_of_day_pattern_def)
next
  fix a b c
  assume "s = [a, b, c]"
  then show ?thesis by (auto simp add: time_of_day_pattern_def split: list.splits)
next
  fix a b c d e f g
  assume long: "s = a # b # c # d # e # f # g"
  have "\<not> time_of_day_pattern s"
    using split_colon_two_length [of s] unfolding time_of_day_pattern_def long
    by (auto split: list.splits)
  then show ?thesis using long by simp
qed

lemma span_check: "(real_of_int d / (1000 * 60 * 60) > 24) = (d > 86400000)"
  by (simp add: field_simps)

lemma validateTimeFormat_parts:
  assumes "validateTimeFormat t"
  obtains hs ms where "split_colon (trim t) = [hs, ms]" "digits_value hs < 24" "digits_value ms < 60"
  using assms
  by (auto simp: validateTimeFormat_def timeRegex_pattern time_of_day_pattern_def split: list.splits)

lemma validateTimeFormat_not_blank: "validateTimeFormat t \<Longrightarrow> trim t \<noteq> []"
  by (auto simp: validateTimeFormat_def)

lemma handleScheduleSet_Inr:
  assumes "handleScheduleSet z now1 now2 a b = Inr r"
  shows "validateTimeFormat a \<and> validateTimeFormat b"
  using assms by (auto simp: handleScheduleSet_def split: if_splits)

lemma handleScheduleSet_times:
  assumes "validateTimeFormat a" "validateTimeFormat b"
    and "parseTimeToTimestamp z now1 a = Some S" "parseTimeToTimestamp z now2 b = Some E"
  shows "handleScheduleSet z now1 now2 a b =
     (if S + msPerDay < (if E \<le> S then E + msPerDay else E)
      then Inl (''Invalid Schedule'', ''Schedule duration cannot exceed 24 hours'')
      else Inr \<lparr> sch_active = True,
                 sch_startTime = Some (S div 1000),
                 sch_endTime = Some ((if E \<le> S then E + msPerDay else E) div 1000) \<rparr>)"
  using assms validateTimeFormat_not_blank [of a] validateTimeFormat_not_blank [of b]
  unfolding handleScheduleSet_def Let_def hours_between_exceed_24_def time_le_def msPerDay_def
  by (simp del: of_int_diff add: span_check)

lemma handleScheduleSet_written:
  assumes "handleScheduleSet z now1 now2 a b = Inr r"
    and "sch_startTime r = Some s" "sch_endTime r = Some e"
  obtains S E where "parseTimeToTimestamp z now1 a = Some S"
    "parseTimeToTimestamp z now2 b = Some E"
proof -
  from assms(1) have r: "r = \<lparr> sch_active = True,
      sch_startTime = map_option (\<lambda>t. t div 1000) (parseTimeToTimestamp z now1 a),
      sch_endTime = map_option (\<lambda>t. t div 1000)
        (if time_le (parseTimeToTimestamp z now2 b) (parseTimeToTimestamp z now1 a)
         then map_option (\<lambda>e. e + 24 * 60 * 60 * 1000) (parseTimeToTimestamp z now2 b)
         else parseTimeToTimestamp z now2 b) \<rparr>"
    by (auto simp: handleScheduleSet_def Let_def split: if_splits)
  from assms(2) obtain S where S: "parseTimeToTimestamp z now1 a = Some S"
    unfolding r by auto
  from assms(3) obtain E where E: "parseTimeToTimestamp z now2 b = Some E"
    unfolding r by (auto split: if_splits)
  from S E show ?thesis by (rule that)
qed

subsection \<open>Zones whose offset never changes\<close>

lemma next_day: "MakeDate (Day t + 1) (TimeWithinDay t) = t + msPerDay"
proof -
  have "t = msPerDay * (t div msPerDay) + t mod msPerDay"
    by (rule mult_div_mod_eq [symmetric])
  then show ?thesis
    by (simp add: MakeDate_def Day_def TimeWithinDay_def algebra_simps)
qed

lemma setHours_fixed_zone:
  "setHours (fixed_zone tz) now h m =
     TimeClip (((now + tz) div 86400000) * 86400000 + int h * 3600000 + int m * 60000 - tz)"
  by (simp add: setHours_def fixed_zone_def LocalTime_def UTC_def LocalTZA_def Let_def
      MakeDate_def MakeTime_def Day_def msPerDay_def add.assoc)

lemma setDate_next_fixed_zone:
  "setDate_next (fixed_zone tz) t = TimeClip (t + 86400000)"
proof -
  have "MakeDate (Day (t + tz) + 1) (TimeWithinDay (t + tz)) = t + tz + 86400000"
    using next_day [of "t + tz"] by (simp add: msPerDay_def)
  then show ?thesis
    by (simp add: setDate_next_def fixed_zone_def LocalTime_def UTC_def LocalTZA_def Let_def)
qed

lemma day_time_bounds:
  fixes now tz :: int
  assumes "h < 24" "m < 60"
  defines "d \<equiv> ((now + tz) div 86400000) * 86400000 + int h * 3600000 + int m * 60000 - tz"
  shows "now - 86400000 < d"
    and "d < now + 86400000"
    and "(d + tz) mod 86400000 = int h * 3600000 + int m * 60000"
    and "(d + 86400000 + tz) mod 86400000 = int h * 3600000 + int m * 60000"
proof -
  define q where "q = (now + tz) div 86400000"
  define off where "off = int h * 3600000 + int m * 60000"
  have "now + tz = 86400000 * q + (now + tz) mod 86400000"
    unfolding q_def by (rule mult_div_mod_eq [symmetric])
  moreover have "0 \<le> (now + tz) mod 86400000" "(now + tz) mod 86400000 < 86400000"
    by simp_all
  ultimately have q: "q * 86400000 \<le> now + tz" "now + tz < q * 86400000 + 86400000"
    by linarith+
  have off: "0 \<le> off" "off < 86400000"
    using assms(1,2) unfolding off_def by simp_all
  have s: "d = q * 86400000 + off - tz"
    by (simp add: d_def q_def off_def)
  show "now - 86400000 < d" "d < now + 86400000"
    using q off unfolding s by linarith+
  have "(q * 86400000 + off) mod 86400000 = off"
    using off by (simp add: mod_pos_pos_trivial)
  then show "(d + tz) mod 86400000 = int h * 3600000 + int m * 60000"
    unfolding s off_def by simp
  have m2: "((q + 1) * 86400000 + off) mod 86400000 = off"
    using off by (simp only: mod_mult_self3 mod_pos_pos_trivial)
  have e2: "d + 86400000 + tz = (q + 1) * 86400000 + off"
    unfolding s by (simp add: algebra_simps)
  show "(d + 86400000 + tz) mod 86400000 = int h * 3600000 + int m * 60000"
    unfolding e2 m2 by (simp add: off_def)
qed

text \<open>
  In a zone whose offset never changes, and at a clock reading two days or more inside
  the range of \<^verbatim>\<open>Date\<close>, a valid time string resolves to its next occurrence after
  \<open>now\<close>: a time later than \<open>now\<close>, at most 24 hours later, whose local time of day is the
  one written.
\<close>

lemma parseTimeToTimestamp_fixed_zone:
  assumes "validateTimeFormat t" and "\<bar>now\<bar> + 2 * msPerDay \<le> maxTime"
  obtains T where "parseTimeToTimestamp (fixed_zone tz) now t = Some T"
    and "now < T" and "T \<le> now + 86400000"
    and "(T + tz) mod 86400000 =
           int (digits_value (split_colon (trim t) ! 0)) * 3600000 +
           int (digits_value (split_colon (trim t) ! 1)) * 60000"
proof -
  from assms(1) obtain hs ms where p: "split_colon (trim t) = [hs, ms]"
    and h: "digits_value hs < 24" and m: "digits_value ms < 60"
    by (rule validateTimeFormat_parts)
  define d where "d = ((now + tz) div 86400000) * 86400000 + int (digits_value hs) * 3600000 +
    int (digits_value ms) * 60000 - tz"
  note b = day_time_bounds [OF h m, where now = now and tz = tz, folded d_def]
  have r: "\<bar>now\<bar> + 172800000 \<le> 8640000000000000"
    using assms(2) by (simp add: msPerDay_def maxTime_def)
  have c1: "TimeClip d = Some d"
    using b(1,2) r by (simp add: TimeClip_def maxTime_def)
  have c2: "TimeClip (d + 86400000) = Some (d + 86400000)"
    using b(1,2) r by (simp add: TimeClip_def maxTime_def)
  have e: "parseTimeToTimestamp (fixed_zone tz) now t =
     Some (if d \<le> now then d + 86400000 else d)"
    by (simp add: parseTimeToTimestamp_def p Let_def setHours_fixed_zone setDate_next_fixed_zone
        c1 c2 d_def [symmetric])
  show ?thesis
  proof (rule that [OF e])
    show "now < (if d \<le> now then d + 86400000 else d)"
      using b(1) by simp
    show "(if d \<le> now then d + 86400000 else d) \<le> now + 86400000"
      using b(2) by simp
    show "((if d \<le> now then d + 86400000 else d) + tz) mod 86400000 =
           int (digits_value (split_colon (trim t) ! 0)) * 3600000 +
           int (digits_value (split_colon (trim t) ! 1)) * 60000"
      using b(3,4) unfolding p by simp
  qed
qed

lemma twenty_minutes:
  fixes S E0 :: int
  assumes "now1 \<le> now2" "now2 \<le> now1 + 1200000"
    and "now1 < S" "S \<le> now1 + 86400000" "now2 < E0" "E0 \<le> now2 + 86400000"
    and "(S + tz) mod 86400000 = 85800000" "(E0 + tz) mod 86400000 = 600000"
  shows "(if E0 \<le> S then E0 + 86400000 else E0) = S + 1200000"
proof -
  define k1 where "k1 = (S + tz) div 86400000"
  define k2 where "k2 = (E0 + tz) div 86400000"
  have "S + tz = 86400000 * k1 + (S + tz) mod 86400000"
    unfolding k1_def by (rule mult_div_mod_eq [symmetric])
  then have s: "S + tz = 86400000 * k1 + 85800000"
    using assms(7) by simp
  have "E0 + tz = 86400000 * k2 + (E0 + tz) mod 86400000"
    unfolding k2_def by (rule mult_div_mod_eq [symmetric])
  then have e: "E0 + tz = 86400000 * k2 + 600000"
    using assms(8) by simp
  consider "k2 < k1" | "k2 = k1" | "k2 = k1 + 1" | "k1 + 1 < k2"
    by linarith
  then show ?thesis
  proof cases
    case 1
    then show ?thesis using assms(1-6) s e by linarith
  next
    case 2
    then show ?thesis using assms(1-6) s e by simp
  next
    case 3
    then show ?thesis using assms(1-6) s e by simp
  next
    case 4
    then show ?thesis using assms(1-6) s e by linarith
  qed
qed

lemma seconds_of_twenty_minutes: "(S + 1200000) div 1000 = S div 1000 + (1200::int)"
proof -
  have "(S + 1200 * 1000) div 1000 = S div 1000 + (1200::int)"
    by (simp only: div_mult_self3)
  then show ?thesis by simp
qed

text \<open>
  What the planner does for \<^verbatim>\<open>"23:50"\<close> and \<^verbatim>\<open>"00:10"\<close> in a zone whose offset never
  changes, at clock readings two days or more inside the range of \<^verbatim>\<open>Date\<close>, the second
  one up to 20 minutes after the first: the plan is written, it starts at the next 23:50
  and it ends 20 minutes (1200 seconds) later.
\<close>

lemma plan_2350_0010_fixed_zone:
  assumes "na \<le> nb" "nb \<le> na + 1200000"
    and "\<bar>na\<bar> + 2 * msPerDay \<le> maxTime" "\<bar>nb\<bar> + 2 * msPerDay \<le> maxTime"
  shows "\<exists>S. parseTimeToTimestamp (fixed_zone tz) na ''23:50'' = Some S \<and> na < S \<and>
             S \<le> na + msPerDay \<and>
             handleScheduleSet (fixed_zone tz) na nb ''23:50'' ''00:10'' =
               Inr \<lparr> sch_active = True,
                     sch_startTime = Some (S div 1000),
                     sch_endTime = Some (S div 1000 + 20 * 60) \<rparr>"
proof -
  have va: "validateTimeFormat ''23:50''" and vb: "validateTimeFormat ''00:10''"
    by (simp_all add: validateTimeFormat_def trim_def is_space_def is_digit_def)
  have ta: "trim ''23:50'' = ''23:50''" and tb: "trim ''00:10'' = ''00:10''"
    by (simp_all add: trim_def is_space_def)
  have D: "msPerDay = 86400000"
    by (simp add: msPerDay_def)
  from va assms(3) obtain S where S: "parseTimeToTimestamp (fixed_zone tz) na ''23:50'' = Some S"
    and a: "na < S" "S \<le> na + 86400000"
    and ma0: "(S + tz) mod 86400000 =
           int (digits_value (split_colon (trim ''23:50'') ! 0)) * 3600000 +
           int (digits_value (split_colon (trim ''23:50'') ! 1)) * 60000"
    by (rule parseTimeToTimestamp_fixed_zone)
  from vb assms(4) obtain E where E: "parseTimeToTimestamp (fixed_zone tz) nb ''00:10'' = Some E"
    and b: "nb < E" "E \<le> nb + 86400000"
    and mb0: "(E + tz) mod 86400000 =
           int (digits_value (split_colon (trim ''00:10'') ! 0)) * 3600000 +
           int (digits_value (split_colon (trim ''00:10'') ! 1)) * 60000"
    by (rule parseTimeToTimestamp_fixed_zone)
  have ma: "(S + tz) mod 86400000 = 85800000"
    using ma0 unfolding ta by (simp add: digits_value_def digit_value_def)
  have mb: "(E + tz) mod 86400000 = 600000"
    using mb0 unfolding tb by (simp add: digits_value_def digit_value_def)
  have t: "(if E \<le> S then E + 86400000 else E) = S + 1200000"
    using assms(1,2) a b ma mb by (intro twenty_minutes) simp_all
  have "handleScheduleSet (fixed_zone tz) na nb ''23:50'' ''00:10'' =
          Inr \<lparr> sch_active = True, sch_startTime = Some (S div 1000),
                sch_endTime = Some (S div 1000 + 20 * 60) \<rparr>"
    unfolding handleScheduleSet_times [OF va vb S E] D t
    by (simp add: seconds_of_twenty_minutes)
  with S a show ?thesis
    unfolding D by blast
qed

subsection \<open>A night in which the clocks are changed\<close>

text \<open>
  Claim C8 says that at every clock reading the plan for \<^verbatim>\<open>"23:50"\<close> and \<^verbatim>\<open>"00:10"\<close> ends
  after it starts and spans exactly 20 minutes. Here it is evaluated in New York at 23:55
  of 2024-03-09 (the clock reading 1710046500000), the evening before the clocks go
  forward, and at 23:55 of 2024-11-02 (the clock reading 1730606100000), the evening
  before the clocks go back. In March the start time is 23:50 of 2024-03-10, which
  \<^verbatim>\<open>setDate\<close> reaches 23 hours after the 23:50 that has just passed; the end time is the
  00:10 that comes in 15 minutes, moved by 24 hours to bring it after the start time,
  which is 01:10 of 2024-03-11. The plan that is written spans 80 minutes, not 20. In
  November the start time is reached 25 hours after the 23:50 that has just passed, and
  the end time that is written is 40 minutes before the start time.
\<close>

theorem plan_across_midnight_clock_change:
  "handleScheduleSet new_york 1710046500000 1710046500000 ''23:50'' ''00:10'' =
     Inr \<lparr> sch_active = True, sch_startTime = Some 1710129000,
           sch_endTime = Some 1710133800 \<rparr> \<and>
   (1710133800::int) - 1710129000 = 80 * 60 \<and>
   handleScheduleSet new_york 1730606100000 1730606100000 ''23:50'' ''00:10'' =
     Inr \<lparr> sch_active = True, sch_startTime = Some 1730695800,
           sch_endTime = Some 1730693400 \<rparr> \<and>
   (1730693400::int) < 1730695800"
  by (simp add: handleScheduleSet_def validateTimeFormat_def trim_def is_space_def is_digit_def
      digits_value_def digit_value_def parseTimeToTimestamp_def setHours_def setDate_next_def
      new_york_def LocalTime_def UTC_def LocalTZA_def TimeClip_def maxTime_def MakeDate_def
      MakeTime_def Day_def TimeWithinDay_def msPerDay_def time_le_def
      hours_between_exceed_24_def Let_def)

text \<open>
  Claim C8 at the first of these clock readings: the plan that is written is not the
  plan of 20 minutes from the start time.
\<close>

theorem plan_across_midnight_clock_change_witness:
  "handleScheduleSet new_york 1710046500000 1710046500000 ''23:50'' ''00:10'' \<noteq>
     Inr \<lparr> sch_active = True, sch_startTime = Some 1710129000,
           sch_endTime = Some (1710129000 + 20 * 60) \<rparr>"
  using plan_across_midnight_clock_change by simp

subsection \<open>Rejected plans\<close>

text \<open>
  Claim C9, as amended. Before any write, \<^verbatim>\<open>handleScheduleSet\<close> rejects with the alert
  \<^verbatim>\<open>Invalid Schedule\<close> (both times must be set) when either input is blank after trimming;
  it rejects with the alert \<^verbatim>\<open>Invalid Time Format\<close> when both are non-blank and one of
  them, after trimming, is not a time of day written as hours of one or two digits below
  24, a colon and minutes of two digits below 60 (in particular \<^verbatim>\<open>"25:00"\<close>); and it
  rejects with the alert that the schedule cannot exceed 24 hours when the resolved span
  exceeds 24 hours. A plan that is written comes from two valid inputs and spans at most
  24 hours (between the times that are written as numbers). This holds in every time
  zone and at all clock readings.
\<close>

theorem handleScheduleSet_rejections:
  "(trim a = [] \<or> trim b = [] \<longrightarrow>
      handleScheduleSet z na nb a b =
        Inl (''Invalid Schedule'', ''Please set both start and end times'')) \<and>
   (trim a \<noteq> [] \<and> trim b \<noteq> [] \<and>
    (\<not> time_of_day_pattern (trim a) \<or> \<not> time_of_day_pattern (trim b)) \<longrightarrow>
      handleScheduleSet z na nb a b =
        Inl (''Invalid Time Format'', ''Please use HH:MM format (e.g., 14:30)'')) \<and>
   (trim b \<noteq> [] \<longrightarrow>
      handleScheduleSet z na nb ''25:00'' b =
        Inl (''Invalid Time Format'', ''Please use HH:MM format (e.g., 14:30)'') \<and>
      handleScheduleSet z na nb b ''25:00'' =
        Inl (''Invalid Time Format'', ''Please use HH:MM format (e.g., 14:30)'')) \<and>
   (time_of_day_pattern (trim a) \<and> time_of_day_pattern (trim b) \<and>
    parseTimeToTimestamp z na a = Some S \<and> parseTimeToTimestamp z nb b = Some E \<and>
    S + 24 * 60 * 60 * 1000 < (if E \<le> S then E + 24 * 60 * 60 * 1000 else E) \<longrightarrow>
      handleScheduleSet z na nb a b =
        Inl (''Invalid Schedule'', ''Schedule duration cannot exceed 24 hours'')) \<and>
   (handleScheduleSet z na nb a b = Inr r \<longrightarrow>
      time_of_day_pattern (trim a) \<and> time_of_day_pattern (trim b) \<and>
      (\<forall>s e. sch_startTime r = Some s \<and> sch_endTime r = Some e \<longrightarrow>
         e - s \<le> 24 * 60 * 60))"
proof (intro conjI impI allI)
  assume "trim a = [] \<or> trim b = []"
  then show "handleScheduleSet z na nb a b =
        Inl (''Invalid Schedule'', ''Please set both start and end times'')"
    by (simp add: handleScheduleSet_def)
next
  assume "trim a \<noteq> [] \<and> trim b \<noteq> [] \<and>
    (\<not> time_of_day_pattern (trim a) \<or> \<not> time_of_day_pattern (trim b))"
  then show "handleScheduleSet z na nb a b =
        Inl (''Invalid Time Format'', ''Please use HH:MM format (e.g., 14:30)'')"
    by (auto simp: handleScheduleSet_def validateTimeFormat_def timeRegex_pattern)
next
  assume b: "trim b \<noteq> []"
  have t: "trim ''25:00'' = ''25:00''"
    by (simp add: trim_def is_space_def)
  have n: "\<not> validateTimeFormat ''25:00''"
    by (simp add: validateTimeFormat_def t is_digit_def)
  show "handleScheduleSet z na nb ''25:00'' b =
        Inl (''Invalid Time Format'', ''Please use HH:MM format (e.g., 14:30)'')"
    and "handleScheduleSet z na nb b ''25:00'' =
        Inl (''Invalid Time Format'', ''Please use HH:MM format (e.g., 14:30)'')"
    using b n by (simp_all add: handleScheduleSet_def t)
next
  assume h: "time_of_day_pattern (trim a) \<and> time_of_day_pattern (trim b) \<and>
    parseTimeToTimestamp z na a = Some S \<and> parseTimeToTimestamp z nb b = Some E \<and>
    S + 24 * 60 * 60 * 1000 < (if E \<le> S then E + 24 * 60 * 60 * 1000 else E)"
  then have v: "validateTimeFormat a" "validateTimeFormat b"
    by (simp_all add: validateTimeFormat_def timeRegex_pattern)
  from h have p: "parseTimeToTimestamp z na a = Some S" "parseTimeToTimestamp z nb b = Some E"
    by simp_all
  from h show "handleScheduleSet z na nb a b =
        Inl (''Invalid Schedule'', ''Schedule duration cannot exceed 24 hours'')"
    unfolding handleScheduleSet_times [OF v p] msPerDay_def by simp
next
  assume r: "handleScheduleSet z na nb a b = Inr r"
  then have v: "validateTimeFormat a" "validateTimeFormat b"
    using handleScheduleSet_Inr by blast+
  then show "time_of_day_pattern (trim a)" "time_of_day_pattern (trim b)"
    by (simp_all add: validateTimeFormat_def timeRegex_pattern)
  fix s e
  assume w: "sch_startTime r = Some s \<and> sch_endTime r = Some e"
  with r obtain S E0 where p: "parseTimeToTimestamp z na a = Some S"
    "parseTimeToTimestamp z nb b = Some E0"
    by (blast elim: handleScheduleSet_written)
  define E where "E = (if E0 \<le> S then E0 + 86400000 else E0)"
  from r have le: "E \<le> S + 86400000"
    and s: "sch_startTime r = Some (S div 1000)" and e: "sch_endTime r = Some (E div 1000)"
    unfolding handleScheduleSet_times [OF v p] msPerDay_def E_def
    by (auto split: if_splits)
  have "E div 1000 \<le> (S + 86400 * 1000) div 1000"
    using le by (intro zdiv_mono1) simp_all
  also have "\<dots> = S div 1000 + 86400"
    by (simp only: div_mult_self3)
  finally show "e - s \<le> 24 * 60 * 60"
    using w unfolding s e by simp
qed

text \<open>
  The amended claim C9, in the zone UTC, at a blank start time, at the start times
  \<^verbatim>\<open>"9:60"\<close> and \<^verbatim>\<open>"25:00"\<close>, at a plan whose two clock readings are an hour apart (start
  \<^verbatim>\<open>"00:10"\<close> read at 00:00, end \<^verbatim>\<open>"00:30"\<close> read at 01:00), and at the plan from
  \<^verbatim>\<open>"23:50"\<close> to \<^verbatim>\<open>"00:10"\<close>.
\<close>

theorem handleScheduleSet_rejections_witness:
  "handleScheduleSet (fixed_zone 0) 0 0 [] ''10:00'' =
     Inl (''Invalid Schedule'', ''Please set both start and end times'') \<and>
   handleScheduleSet (fixed_zone 0) 0 0 ''9:60'' ''10:00'' =
     Inl (''Invalid Time Format'', ''Please use HH:MM format (e.g., 14:30)'') \<and>
   handleScheduleSet (fixed_zone 0) 0 0 ''25:00'' ''10:00'' =
     Inl (''Invalid Time Format'', ''Please use HH:MM format (e.g., 14:30)'') \<and>
   handleScheduleSet (fixed_zone 0) 0 3600000 ''00:10'' ''00:30'' =
     Inl (''Invalid Schedule'', ''Schedule duration cannot exceed 24 hours'') \<and>
   handleScheduleSet (fixed_zone 0) 0 0 ''23:50'' ''00:10'' =
     Inr \<lparr> sch_active = True, sch_startTime = Some 85800, sch_endTime = Some 87000 \<rparr> \<and>
   time_of_day_pattern (trim ''23:50'') \<and> time_of_day_pattern (trim ''00:10'') \<and>
   (87000::int) - 85800 \<le> 24 * 60 * 60"
proof -
  note ev = trim_def is_space_def time_of_day_pattern_def is_digit_def digits_value_def
    digit_value_def
  note dt = parseTimeToTimestamp_def setHours_def setDate_next_def fixed_zone_def
    LocalTime_def UTC_def LocalTZA_def TimeClip_def maxTime_def MakeDate_def MakeTime_def
    Day_def TimeWithinDay_def msPerDay_def time_le_def hours_between_exceed_24_def Let_def
  have "trim [] = [] \<or> trim ''10:00'' = []"
    by (simp add: ev)
  with handleScheduleSet_rejections [where a = "[]" and b = "''10:00''" and z = "fixed_zone 0"
      and na = 0 and nb = 0]
  have t1: "handleScheduleSet (fixed_zone 0) 0 0 [] ''10:00'' =
     Inl (''Invalid Schedule'', ''Please set both start and end times'')"
    by blast
  have "trim ''9:60'' \<noteq> [] \<and> trim ''10:00'' \<noteq> [] \<and>
    (\<not> time_of_day_pattern (trim ''9:60'') \<or> \<not> time_of_day_pattern (trim ''10:00''))"
    by (simp add: ev)
  with handleScheduleSet_rejections [where a = "''9:60''" and b = "''10:00''"
      and z = "fixed_zone 0" and na = 0 and nb = 0]
  have t2: "handleScheduleSet (fixed_zone 0) 0 0 ''9:60'' ''10:00'' =
     Inl (''Invalid Time Format'', ''Please use HH:MM format (e.g., 14:30)'')"
    by blast
  have "trim ''10:00'' \<noteq> []"
    by (simp add: ev)
  with handleScheduleSet_rejections [where b = "''10:00''" and z = "fixed_zone 0" and na = 0
      and nb = 0]
  have t3: "handleScheduleSet (fixed_zone 0) 0 0 ''25:00'' ''10:00'' =
     Inl (''Invalid Time Format'', ''Please use HH:MM format (e.g., 14:30)'')"
    by blast
  have "time_of_day_pattern (trim ''00:10'') \<and> time_of_day_pattern (trim ''00:30'') \<and>
    parseTimeToTimestamp (fixed_zone 0) 0 ''00:10'' = Some 600000 \<and>
    parseTimeToTimestamp (fixed_zone 0) 3600000 ''00:30'' = Some 88200000 \<and>
    (600000::int) + 24 * 60 * 60 * 1000 <
      (if (88200000::int) \<le> 600000 then 88200000 + 24 * 60 * 60 * 1000 else 88200000)"
    by (simp add: ev dt)
  with handleScheduleSet_rejections [where a = "''00:10''" and b = "''00:30''"
      and z = "fixed_zone 0" and na = 0 and nb = 3600000 and S = 600000 and E = 88200000]
  have t4: "handleScheduleSet (fixed_zone 0) 0 3600000 ''00:10'' ''00:30'' =
     Inl (''Invalid Schedule'', ''Schedule duration cannot exceed 24 hours'')"
    by blast
  have t5: "handleScheduleSet (fixed_zone 0) 0 0 ''23:50'' ''00:10'' =
     Inr \<lparr> sch_active = True, sch_startTime = Some 85800, sch_endTime = Some 87000 \<rparr>"
    by (simp add: handleScheduleSet_def validateTimeFormat_def ev dt)
  with handleScheduleSet_rejections [where a = "''23:50''" and b = "''00:10''"
      and z = "fixed_zone 0" and na = 0 and nb = 0
      and r = "\<lparr> sch_active = True, sch_startTime = Some 85800, sch_endTime = Some 87000 \<rparr>"]
  have t6: "time_of_day_pattern (trim ''23:50'') \<and> time_of_day_pattern (trim ''00:10'') \<and>
    (87000::int) - 85800 \<le> 24 * 60 * 60"
    by simp
  from t1 t2 t3 t4 t5 t6 show ?thesis by blast
qed

text \<open>
  Claim C9 as stated fails: the empty start time does not match the pattern, and it is
  rejected with the alert \<^verbatim>\<open>Invalid Schedule\<close>, not with \<^verbatim>\<open>Invalid Time Format\<close>.
\<close>

theorem handleScheduleSet_blank_counterexample:
  "\<not> validateTimeFormat [] \<and>
   handleScheduleSet (fixed_zone 0) 0 0 [] ''10:00'' =
     Inl (''Invalid Schedule'', ''Please set both start and end times'') \<and>
   handleScheduleSet (fixed_zone 0) 0 0 [] ''10:00'' \<noteq>
     Inl (''Invalid Time Format'', ''Please use HH:MM format (e.g., 14:30)'')"
  by (simp add: handleScheduleSet_def validateTimeFormat_def trim_def)

section \<open>Properties of the command registry\<close>

lemma digit_char_inj: "d < 10 \<Longrightarrow> e < 10 \<Longrightarrow> digit_char d = digit_char e \<Longrightarrow> d = e"
  unfolding digit_char_def
  by (subst (asm) nth_eq_iff_index_eq) simp_all

lemma digit_char_not_underscore: "d < 10 \<Longrightarrow> digit_char d \<noteq> CHR ''_''"
proof -
  assume "d < 10"
  then have "digit_char d \<in> set ''0123456789''"
    unfolding digit_char_def by (intro nth_mem) simp
  then show ?thesis by auto
qed

lemma decimal_not_underscore: "CHR ''_'' \<notin> set (decimal n)"
proof (induction n rule: decimal.induct)
  case (1 n)
  show ?case
  proof (cases "n < 10")
    case True
    then show ?thesis
      using digit_char_not_underscore [of n] by (subst decimal.simps) auto
  next
    case False
    then show ?thesis
      using 1 digit_char_not_underscore [of "n mod 10"] by (subst decimal.simps) auto
  qed
qed

lemma decimal_not_empty: "decimal n \<noteq> []"
  by (subst decimal.simps) simp

lemma decimal_inj: "decimal m = decimal n \<Longrightarrow> m = n"
proof (induction m arbitrary: n rule: decimal.induct)
  case (1 m)
  show ?case
  proof (cases "m < 10")
    case m: True
    show ?thesis
    proof (cases "n < 10")
      case True
      with m "1.prems" show ?thesis
        by (subst (asm) (1 2) decimal.simps) (simp add: digit_char_inj)
    next
      case False
      with m "1.prems" decimal_not_empty [of "n div 10"] show ?thesis
        by (subst (asm) (1 2) decimal.simps) simp
    qed
  next
    case m: False
    show ?thesis
    proof (cases "n < 10")
      case True
      with m "1.prems" decimal_not_empty [of "m div 10"] show ?thesis
        by (subst (asm) (1 2) decimal.simps) simp
    next
      case False
      with m "1.prems" have "decimal (m div 10) = decimal (n div 10)"
        and "digit_char (m mod 10) = digit_char (n mod 10)"
        by (subst (asm) (1 2) decimal.simps, simp)+
      then have "m div 10 = n div 10" and "m mod 10 = n mod 10"
        using "1.IH" [OF m] by (simp_all add: digit_char_inj)
      then show ?thesis
        by (metis div_mult_mod_eq)
    qed
  qed
qed

lemma append_separator_eq:
  "x \<notin> set as \<Longrightarrow> x \<notin> set bs \<Longrightarrow> as @ x # cs = bs @ x # ds \<Longrightarrow> as = bs \<and> cs = ds"
proof (induction as arbitrary: bs)
  case Nil
  then show ?case by (cases bs) auto
next
  case (Cons a as)
  then show ?case by (cases bs) auto
qed

lemma generateCommandId_eq_iff:
  "(generateCommandId n1 r1 = generateCommandId n2 r2) =
     (n1 = n2 \<and> substr 2 9 r1 = substr 2 9 r2)"
proof
  assume "generateCommandId n1 r1 = generateCommandId n2 r2"
  then have "decimal n1 @ CHR ''_'' # substr 2 9 r1 = decimal n2 @ CHR ''_'' # substr 2 9 r2"
    by (simp add: generateCommandId_def)
  then have "decimal n1 = decimal n2 \<and> substr 2 9 r1 = substr 2 9 r2"
    by (rule append_separator_eq [OF decimal_not_underscore decimal_not_underscore])
  then show "n1 = n2 \<and> substr 2 9 r1 = substr 2 9 r2"
    using decimal_inj by blast
next
  assume "n1 = n2 \<and> substr 2 9 r1 = substr 2 9 r2"
  then show "generateCommandId n1 r1 = generateCommandId n2 r2"
    by (simp add: generateCommandId_def)
qed

text \<open>The keys of the pending map stay distinct under every handler.\<close>

lemma distinct_register:
  "distinct (map fst (pendingCommands s)) \<Longrightarrow>
   distinct (map fst (pendingCommands (sendCommandWithAck_register now rnd commandType s)))"
  by (simp add: sendCommandWithAck_register_def Let_def distinct_update)

lemma distinct_written:
  "distinct (map fst (pendingCommands s)) \<Longrightarrow>
   distinct (map fst (pendingCommands (sendCommandWithAck_written h now s)))"
  by (simp add: sendCommandWithAck_written_def split: option.splits prod.splits)

lemma distinct_failed:
  "distinct (map fst (pendingCommands s)) \<Longrightarrow>
   distinct (map fst (pendingCommands (sendCommandWithAck_failed h err s)))"
  by (simp add: sendCommandWithAck_failed_def distinct_delete split: option.splits prod.splits)

lemma distinct_timeoutUpdater:
  "distinct (map fst (pendingCommands s)) \<Longrightarrow>
   distinct (map fst (pendingCommands (timeoutUpdater commandId commandType s)))"
  by (simp add: timeoutUpdater_def distinct_delete split: option.splits)

lemma distinct_ackUpdater:
  "distinct (map fst (pendingCommands s)) \<Longrightarrow>
   distinct (map fst (pendingCommands (ackUpdater now ack s)))"
  by (simp add: ackUpdater_def distinct_delete split: option.splits)

lemma distinct_onAckSnapshot:
  "distinct (map fst (pendingCommands s)) \<Longrightarrow>
   distinct (map fst (pendingCommands (onAckSnapshot now acks s)))"
  unfolding onAckSnapshot_def
  by (induction acks arbitrary: s) (simp_all add: distinct_ackUpdater)

lemma distinct_cleanup_entry:
  "distinct (map fst (pendingCommands s)) \<Longrightarrow>
   distinct (map fst (pendingCommands (cleanup_entry now e s)))"
  by (simp add: cleanup_entry_def distinct_delete)

lemma distinct_fold_cleanup_entry:
  "distinct (map fst (pendingCommands s)) \<Longrightarrow>
   distinct (map fst (pendingCommands (fold (cleanup_entry now) es s)))"
  by (induction es arbitrary: s) (simp_all add: distinct_cleanup_entry)

lemma distinct_cleanup:
  "distinct (map fst (pendingCommands s)) \<Longrightarrow>
   distinct (map fst (pendingCommands (cleanup now s)))"
  unfolding cleanup_def by (rule distinct_fold_cleanup_entry)

lemma distinct_fold_timeoutUpdater:
  "distinct (map fst (pendingCommands s)) \<Longrightarrow>
   distinct (map fst (pendingCommands
     (fold (\<lambda>t s'. timeoutUpdater (fst (snd t)) (snd (snd t)) s') ts s)))"
  by (induction ts arbitrary: s) (simp_all add: distinct_timeoutUpdater)

lemma distinct_fireTimers:
  "distinct (map fst (pendingCommands s)) \<Longrightarrow>
   distinct (map fst (pendingCommands (fireTimers now s)))"
  unfolding fireTimers_def by (rule distinct_fold_timeoutUpdater) simp

lemma distinct_step:
  "distinct (map fst (pendingCommands s)) \<Longrightarrow>
   distinct (map fst (pendingCommands (step ev s)))"
  unfolding step_def
  by (cases ev)
     (simp_all add: distinct_fireTimers distinct_register distinct_written distinct_failed
        distinct_onAckSnapshot distinct_cleanup)

lemma distinct_run:
  "distinct (map fst (pendingCommands s)) \<Longrightarrow>
   distinct (map fst (pendingCommands (run evs s)))"
  unfolding run_def by (induction evs arbitrary: s) (simp_all add: distinct_step)

text \<open>
  Claim C3, as amended. Two calls of \<^verbatim>\<open>generateCommandId\<close> return the same id exactly
  when their clock readings are the same millisecond and the nine characters kept of
  their random numbers are the same; otherwise the ids differ. In every state the
  registry reaches, no two pending entries share a correlation id: the map is keyed by
  the id, and a registration under an id that is pending replaces the entry.
\<close>

theorem correlation_ids:
  "(generateCommandId n1 r1 = generateCommandId n2 r2) =
     (n1 = n2 \<and> substr 2 9 r1 = substr 2 9 r2) \<and>
   distinct (map fst (pendingCommands (run evs init_registry)))"
  using generateCommandId_eq_iff [of n1 r1 n2 r2] distinct_run [of init_registry evs]
  by (simp add: init_registry_def)

text \<open>
  Claim C3 as stated fails: two commands issued in the same millisecond, with random
  numbers that differ from the tenth character on, get the same id, and the second
  registration replaces the first.
\<close>

theorem correlation_id_collision_counterexample:
  "''0.4fzyo82mvyr'' \<noteq> ''0.4fzyo82mvzz'' \<and>
   generateCommandId 1700000000000 ''0.4fzyo82mvyr'' =
     generateCommandId 1700000000000 ''0.4fzyo82mvzz'' \<and>
   map (pc_handle \<circ> snd)
     (pendingCommands
        (run [Issue 1700000000000 ''0.4fzyo82mvyr'' ''RELAY_CONTROL'',
              Issue 1700000000000 ''0.4fzyo82mvzz'' ''RESET_PROTECTION''] init_registry)) = [1]"
  by (simp add: generateCommandId_def substr_def run_def step_def fireTimers_def
      sendCommandWithAck_register_def init_registry_def Let_def)

text \<open>
  Accounting of the ids: for every id, the promises the registry has settled for it plus
  the entries pending under it never exceed the number of times it was issued.
\<close>

lemma filter_key_delete:
  "length (filter (\<lambda>e. fst e = k) (AList.delete k' ps)) =
     (if k' = k then 0 else length (filter (\<lambda>e. fst e = k) ps))"
  by (induction ps) (auto simp: AList.delete_eq)

lemma filter_key_update:
  "length (filter (\<lambda>e. fst e = k) (AList.update k' v ps)) \<le>
     length (filter (\<lambda>e. fst e = k) ps) + (if k' = k then 1 else 0)"
  by (induction ps) auto

lemma filter_key_present:
  "map_of ps k = Some v \<Longrightarrow> 1 \<le> length (filter (\<lambda>e. fst e = k) ps)"
  by (induction ps) (auto split: if_splits)

lemma accounted_register:
  "settled k (sendCommandWithAck_register now rnd commandType s) +
   pending_for k (sendCommandWithAck_register now rnd commandType s) \<le>
   settled k s + pending_for k s + (if generateCommandId now rnd = k then 1 else 0)"
  using filter_key_update [of k "generateCommandId now rnd" _ "pendingCommands s"]
  by (simp add: sendCommandWithAck_register_def settled_def pending_for_def Let_def)

lemma accounted_written:
  "settled k (sendCommandWithAck_written h now s) +
   pending_for k (sendCommandWithAck_written h now s) = settled k s + pending_for k s"
  by (simp add: sendCommandWithAck_written_def settled_def pending_for_def
      split: option.splits prod.splits)

lemma accounted_failed:
  "settled k (sendCommandWithAck_failed h err s) +
   pending_for k (sendCommandWithAck_failed h err s) \<le> settled k s + pending_for k s"
  by (simp add: sendCommandWithAck_failed_def settled_def pending_for_def filter_key_delete
      split: option.splits prod.splits)

lemma accounted_timeoutUpdater:
  "settled k (timeoutUpdater commandId commandType s) +
   pending_for k (timeoutUpdater commandId commandType s) \<le> settled k s + pending_for k s"
proof (cases "map_of (pendingCommands s) commandId")
  case None
  then show ?thesis by (simp add: timeoutUpdater_def)
next
  case (Some cmd)
  then show ?thesis
    using filter_key_present [OF Some]
    by (auto simp: timeoutUpdater_def settled_def pending_for_def filter_key_delete)
qed

lemma accounted_ackUpdater:
  "settled k (ackUpdater now ack s) + pending_for k (ackUpdater now ack s) \<le>
   settled k s + pending_for k s"
proof (cases "map_of (pendingCommands s) (ack_commandId ack)")
  case None
  then show ?thesis by (simp add: ackUpdater_def)
next
  case (Some cmd)
  then show ?thesis
    using filter_key_present [OF Some]
    by (auto simp: ackUpdater_def settled_def pending_for_def filter_key_delete)
qed

lemma accounted_onAckSnapshot:
  "settled k (onAckSnapshot now acks s) + pending_for k (onAckSnapshot now acks s) \<le>
   settled k s + pending_for k s"
  unfolding onAckSnapshot_def
proof (induction acks arbitrary: s)
  case Nil
  show ?case by simp
next
  case (Cons ack acks)
  show ?case
    using Cons [of "ackUpdater now ack s"] Cons [of s] accounted_ackUpdater [of k now ack s]
    by (simp del: One_nat_def)
qed

lemma accounted_fold_timeoutUpdater:
  "settled k (fold (\<lambda>t s'. timeoutUpdater (fst (snd t)) (snd (snd t)) s') ts s) +
   pending_for k (fold (\<lambda>t s'. timeoutUpdater (fst (snd t)) (snd (snd t)) s') ts s) \<le>
   settled k s + pending_for k s"
proof (induction ts arbitrary: s)
  case Nil
  show ?case by simp
next
  case (Cons t ts)
  show ?case
    using Cons [of "timeoutUpdater (fst (snd t)) (snd (snd t)) s"]
      accounted_timeoutUpdater [of k "fst (snd t)" "snd (snd t)" s]
    by simp
qed

lemma accounted_fireTimers:
  "settled k (fireTimers now s) + pending_for k (fireTimers now s) \<le>
   settled k s + pending_for k s"
  unfolding fireTimers_def
  using accounted_fold_timeoutUpdater
    [of k "filter (\<lambda>t. fst t \<le> now) (timers s)"
       "s\<lparr>timers := filter (\<lambda>t. \<not> fst t \<le> now) (timers s)\<rparr>"]
  by (simp add: settled_def pending_for_def)

lemma accounted_cleanup_entry:
  assumes "fst e \<in> fst ` set (pendingCommands s)"
  shows "settled k (cleanup_entry now e s) + pending_for k (cleanup_entry now e s) \<le>
         settled k s + pending_for k s"
proof -
  from assms obtain v where "map_of (pendingCommands s) (fst e) = Some v"
    by (metis domD dom_map_of_conv_image_fst)
  from filter_key_present [OF this] show ?thesis
    by (auto simp: cleanup_entry_def settled_def pending_for_def filter_key_delete)
qed

lemma keys_cleanup_entry:
  "k \<noteq> fst e \<Longrightarrow> k \<in> fst ` set (pendingCommands s) \<Longrightarrow>
   k \<in> fst ` set (pendingCommands (cleanup_entry now e s))"
  by (auto simp: cleanup_entry_def AList.delete_eq)

lemma accounted_fold_cleanup_entry:
  "distinct (map fst es) \<Longrightarrow> fst ` set es \<subseteq> fst ` set (pendingCommands s) \<Longrightarrow>
   settled k (fold (cleanup_entry now) es s) + pending_for k (fold (cleanup_entry now) es s) \<le>
   settled k s + pending_for k s"
proof (induction es arbitrary: s)
  case Nil
  show ?case by simp
next
  case (Cons e es)
  have sub: "fst ` set es \<subseteq> fst ` set (pendingCommands (cleanup_entry now e s))"
  proof
    fix x assume x: "x \<in> fst ` set es"
    from Cons.prems(1) have "fst e \<notin> fst ` set es"
      by simp
    with x have "x \<noteq> fst e"
      by blast
    moreover from x Cons.prems(2) have "x \<in> fst ` set (pendingCommands s)"
      by auto
    ultimately show "x \<in> fst ` set (pendingCommands (cleanup_entry now e s))"
      by (rule keys_cleanup_entry)
  qed
  have d: "distinct (map fst es)"
    using Cons.prems by simp
  have "settled k (fold (cleanup_entry now) es (cleanup_entry now e s)) +
      pending_for k (fold (cleanup_entry now) es (cleanup_entry now e s)) \<le>
      settled k (cleanup_entry now e s) + pending_for k (cleanup_entry now e s)"
    by (rule Cons.IH [OF d sub])
  moreover have "settled k (cleanup_entry now e s) + pending_for k (cleanup_entry now e s) \<le>
      settled k s + pending_for k s"
    using Cons.prems by (intro accounted_cleanup_entry) simp
  ultimately show ?case by simp
qed

lemma accounted_cleanup:
  "distinct (map fst (pendingCommands s)) \<Longrightarrow>
   settled k (cleanup now s) + pending_for k (cleanup now s) \<le> settled k s + pending_for k s"
  unfolding cleanup_def by (rule accounted_fold_cleanup_entry) simp_all

lemma accounted_step:
  assumes "distinct (map fst (pendingCommands s))"
  shows "settled k (step ev s) + pending_for k (step ev s) \<le>
         settled k s + pending_for k s + (if issues k ev then 1 else 0)"
proof -
  let ?s = "fireTimers (event_time ev) s"
  have d: "distinct (map fst (pendingCommands ?s))"
    using assms by (rule distinct_fireTimers)
  have f: "settled k ?s + pending_for k ?s \<le> settled k s + pending_for k s"
    by (rule accounted_fireTimers)
  have "settled k (handle_event ev ?s) + pending_for k (handle_event ev ?s) \<le>
        settled k ?s + pending_for k ?s + (if issues k ev then 1 else 0)"
  proof (cases ev)
    case (Issue now rnd commandType)
    then show ?thesis using accounted_register [of k now rnd commandType ?s] by simp
  next
    case (Written now h)
    then show ?thesis using accounted_written [of k h now ?s] by simp
  next
    case (WriteFailed now h err)
    then show ?thesis using accounted_failed [of k h err ?s] by simp
  next
    case (AckSnapshot now acks)
    then show ?thesis using accounted_onAckSnapshot [of k now acks ?s] by simp
  next
    case (Cleanup now)
    then show ?thesis using accounted_cleanup [OF d, of k now] by simp
  next
    case (Elapse now)
    then show ?thesis by simp
  qed
  with f show ?thesis unfolding step_def by linarith
qed

lemma accounted_run:
  "distinct (map fst (pendingCommands s)) \<Longrightarrow>
   settled k (run evs s) + pending_for k (run evs s) \<le>
   settled k s + pending_for k s + issued k evs"
proof (induction evs arbitrary: s)
  case Nil
  show ?case by (simp add: run_def issued_def)
next
  case (Cons ev evs)
  have "settled k (run evs (step ev s)) + pending_for k (run evs (step ev s)) \<le>
        settled k (step ev s) + pending_for k (step ev s) + issued k evs"
    using Cons.prems by (intro Cons.IH distinct_step)
  moreover have "settled k (step ev s) + pending_for k (step ev s) \<le>
        settled k s + pending_for k s + (if issues k ev then 1 else 0)"
    using Cons.prems by (rule accounted_step)
  ultimately show ?case
    by (auto simp: run_def issued_def)
qed

lemma settled_le_issued: "settled k (run evs init_registry) \<le> issued k evs"
  using accounted_run [of init_registry k evs]
  by (simp add: init_registry_def settled_def pending_for_def)

text \<open>The acknowledgment listener on an id that is not pending, and on a repeated snapshot.\<close>

lemma ackUpdater_absent:
  "map_of (pendingCommands s) (ack_commandId ack) = None \<Longrightarrow> ackUpdater now ack s = s"
  by (simp add: ackUpdater_def)

lemma ackUpdater_removes:
  "map_of (pendingCommands (ackUpdater now ack s)) (ack_commandId ack) = None"
  by (simp add: ackUpdater_def delete_conv' split: option.splits)

lemma ackUpdater_keeps_absent:
  "map_of (pendingCommands s) k = None \<Longrightarrow> map_of (pendingCommands (ackUpdater now ack s)) k = None"
  by (simp add: ackUpdater_def delete_conv' split: option.splits)

lemma onAckSnapshot_keeps_absent:
  "map_of (pendingCommands s) k = None \<Longrightarrow>
   map_of (pendingCommands (onAckSnapshot now acks s)) k = None"
  unfolding onAckSnapshot_def
  by (induction acks arbitrary: s) (simp_all add: ackUpdater_keeps_absent)

lemma onAckSnapshot_removes:
  "ack \<in> set acks \<Longrightarrow> ack_commandId ack \<noteq> [] \<Longrightarrow>
   map_of (pendingCommands (onAckSnapshot now acks s)) (ack_commandId ack) = None"
proof (induction acks arbitrary: s)
  case Nil
  then show ?case by simp
next
  case (Cons a acks)
  show ?case
  proof (cases "ack = a")
    case True
    have "map_of (pendingCommands (onAckSnapshot now acks (ackUpdater now a s)))
            (ack_commandId a) = None"
      by (rule onAckSnapshot_keeps_absent) (rule ackUpdater_removes)
    then show ?thesis
      using True Cons.prems by (simp add: onAckSnapshot_def)
  next
    case False
    then have "ack \<in> set acks" using Cons.prems by simp
    from Cons.IH [OF this Cons.prems(2)] show ?thesis
      by (simp add: onAckSnapshot_def)
  qed
qed

lemma onAckSnapshot_absent:
  "(\<And>ack. ack \<in> set acks \<Longrightarrow> ack_commandId ack \<noteq> [] \<Longrightarrow>
      map_of (pendingCommands s) (ack_commandId ack) = None) \<Longrightarrow>
   onAckSnapshot now acks s = s"
  unfolding onAckSnapshot_def
  by (induction acks arbitrary: s) (simp_all add: ackUpdater_absent)

lemma onAckSnapshot_twice:
  "onAckSnapshot now' acks (onAckSnapshot now acks s) = onAckSnapshot now acks s"
  by (rule onAckSnapshot_absent) (rule onAckSnapshot_removes)
lemma promise_state_append:
  "promise_state cs h = None \<Longrightarrow>
   promise_state (cs @ [Call origin commandId h x]) h = Some x"
  unfolding promise_state_def by (induction cs) (auto split: if_splits)

text \<open>
  Promises and ids: in every run, each call of a \<^verbatim>\<open>resolve\<close> or \<^verbatim>\<open>reject\<close>, whoever makes
  it, goes to the promise of an invocation that generated the id the call is made for.
  Hence the promises that receive a call for an id are at most as many as the invocations
  that generated the id.
\<close>

lemma set_update_subset: "set (AList.update k v ps) \<subseteq> insert (k, v) (set ps)"
  by (induction ps) auto

lemma set_delete_subset: "set (AList.delete k ps) \<subseteq> set ps"
  by (auto simp: AList.delete_eq)

lemma follow_register:
  assumes "handles_follow_issues ids s"
  shows "handles_follow_issues (ids @ [generateCommandId now rnd])
           (sendCommandWithAck_register now rnd commandType s)"
proof -
  from assms have n: "nextHandle s = length ids"
    and c: "\<And>c. c \<in> set (calls s) \<Longrightarrow> call_handle c < length ids \<and> ids ! call_handle c = call_id c"
    and p: "\<And>e. e \<in> set (pendingCommands s) \<Longrightarrow>
         pc_handle (snd e) < length ids \<and> ids ! pc_handle (snd e) = fst e"
    and a: "\<And>a. a \<in> set (awaiting s) \<Longrightarrow> fst a < length ids \<and> ids ! fst a = fst (snd a)"
    unfolding handles_follow_issues_def by blast+
  let ?k = "generateCommandId now rnd"
  let ?cmd = "\<lparr> pc_id = ?k, pc_type = commandType, pc_timestamp = now, pc_handle = length ids \<rparr>"
  have p': "pc_handle (snd e) < Suc (length ids) \<and> (ids @ [?k]) ! pc_handle (snd e) = fst e"
    if "e \<in> set (AList.update ?k ?cmd (pendingCommands s))" for e
  proof -
    from that set_update_subset [of ?k ?cmd "pendingCommands s"]
    consider "e = (?k, ?cmd)" | "e \<in> set (pendingCommands s)"
      by blast
    then show ?thesis
    proof cases
      case 1
      then show ?thesis by simp
    next
      case 2
      from p [OF 2] show ?thesis by (simp add: nth_append)
    qed
  qed
  show ?thesis
    unfolding handles_follow_issues_def sendCommandWithAck_register_def Let_def n
    using c a p' by (auto simp: nth_append less_Suc_eq)
qed

lemma follow_written:
  "handles_follow_issues ids s \<Longrightarrow> handles_follow_issues ids (sendCommandWithAck_written h now s)"
  using set_delete_subset [of h "awaiting s"]
  unfolding handles_follow_issues_def sendCommandWithAck_written_def
  by (auto split: option.splits)

lemma follow_failed:
  assumes "handles_follow_issues ids s"
  shows "handles_follow_issues ids (sendCommandWithAck_failed h err s)"
proof (cases "map_of (awaiting s) h")
  case None
  with assms show ?thesis by (simp add: sendCommandWithAck_failed_def)
next
  case (Some x)
  obtain commandId commandType where x: "x = (commandId, commandType)"
    by (cases x)
  from Some have "(h, commandId, commandType) \<in> set (awaiting s)"
    unfolding x by (rule map_of_SomeD)
  with assms have "h < length ids \<and> ids ! h = commandId"
    unfolding handles_follow_issues_def by fastforce
  with assms show ?thesis
    using set_delete_subset [of h "awaiting s"]
      set_delete_subset [of commandId "pendingCommands s"]
    unfolding handles_follow_issues_def sendCommandWithAck_failed_def Some x
    by auto
qed

lemma follow_timeoutUpdater:
  assumes "handles_follow_issues ids s"
  shows "handles_follow_issues ids (timeoutUpdater commandId commandType s)"
proof (cases "map_of (pendingCommands s) commandId")
  case None
  with assms show ?thesis by (simp add: timeoutUpdater_def)
next
  case (Some cmd)
  then have "(commandId, cmd) \<in> set (pendingCommands s)"
    by (rule map_of_SomeD)
  with assms have "pc_handle cmd < length ids \<and> ids ! pc_handle cmd = commandId"
    unfolding handles_follow_issues_def by fastforce
  with assms show ?thesis
    using set_delete_subset [of commandId "pendingCommands s"]
    unfolding handles_follow_issues_def timeoutUpdater_def Some
    by auto
qed

lemma follow_ackUpdater:
  assumes "handles_follow_issues ids s"
  shows "handles_follow_issues ids (ackUpdater now ack s)"
proof (cases "map_of (pendingCommands s) (ack_commandId ack)")
  case None
  with assms show ?thesis by (simp add: ackUpdater_def)
next
  case (Some cmd)
  then have "(ack_commandId ack, cmd) \<in> set (pendingCommands s)"
    by (rule map_of_SomeD)
  with assms have "pc_handle cmd < length ids \<and> ids ! pc_handle cmd = ack_commandId ack"
    unfolding handles_follow_issues_def by fastforce
  with assms show ?thesis
    using set_delete_subset [of "ack_commandId ack" "pendingCommands s"]
    unfolding handles_follow_issues_def ackUpdater_def Some
    by auto
qed

lemma follow_onAckSnapshot:
  "handles_follow_issues ids s \<Longrightarrow> handles_follow_issues ids (onAckSnapshot now acks s)"
  unfolding onAckSnapshot_def
  by (induction acks arbitrary: s) (simp_all add: follow_ackUpdater)

lemma follow_fold_timeoutUpdater:
  "handles_follow_issues ids s \<Longrightarrow>
   handles_follow_issues ids
     (fold (\<lambda>t s'. timeoutUpdater (fst (snd t)) (snd (snd t)) s') ts s)"
  by (induction ts arbitrary: s) (simp_all add: follow_timeoutUpdater)

lemma follow_fireTimers:
  assumes "handles_follow_issues ids s"
  shows "handles_follow_issues ids (fireTimers now s)"
proof -
  have "handles_follow_issues ids (s\<lparr>timers := filter (\<lambda>t. \<not> fst t \<le> now) (timers s)\<rparr>)"
    using assms by (simp add: handles_follow_issues_def)
  then show ?thesis
    unfolding fireTimers_def by (rule follow_fold_timeoutUpdater)
qed

lemma follow_cleanup_entry:
  assumes "handles_follow_issues ids s"
    and "pc_handle (snd e) < length ids \<and> ids ! pc_handle (snd e) = fst e"
  shows "handles_follow_issues ids (cleanup_entry now e s)"
  using assms set_delete_subset [of "fst e" "pendingCommands s"]
  unfolding handles_follow_issues_def cleanup_entry_def
  by auto

lemma follow_fold_cleanup_entry:
  "handles_follow_issues ids s \<Longrightarrow>
   (\<And>e. e \<in> set es \<Longrightarrow> pc_handle (snd e) < length ids \<and> ids ! pc_handle (snd e) = fst e) \<Longrightarrow>
   handles_follow_issues ids (fold (cleanup_entry now) es s)"
  by (induction es arbitrary: s) (simp_all add: follow_cleanup_entry)

lemma follow_cleanup:
  assumes "handles_follow_issues ids s"
  shows "handles_follow_issues ids (cleanup now s)"
  unfolding cleanup_def
  using assms
proof (rule follow_fold_cleanup_entry)
  fix e assume "e \<in> set (pendingCommands s)"
  with assms show "pc_handle (snd e) < length ids \<and> ids ! pc_handle (snd e) = fst e"
    unfolding handles_follow_issues_def by blast
qed

lemma follow_step:
  assumes "handles_follow_issues ids s"
  shows "handles_follow_issues (ids @ issue_id ev) (step ev s)"
proof -
  have f: "handles_follow_issues ids (fireTimers (event_time ev) s)"
    using assms by (rule follow_fireTimers)
  show ?thesis
    unfolding step_def
    using f
    by (cases ev)
       (simp_all add: follow_register follow_written follow_failed follow_onAckSnapshot
          follow_cleanup)
qed

lemma follow_run:
  "handles_follow_issues ids s \<Longrightarrow>
   handles_follow_issues (ids @ issued_ids evs) (run evs s)"
proof (induction evs arbitrary: ids s)
  case Nil
  then show ?case by (simp add: run_def issued_ids_def)
next
  case (Cons ev evs)
  from Cons.IH [OF follow_step [OF Cons.prems, of ev]] show ?case
    by (simp add: run_def issued_ids_def)
qed

lemma issued_by_ids: "issued k evs = length (filter (\<lambda>i. i = k) (issued_ids evs))"
proof (induction evs)
  case Nil
  show ?case by (simp add: issued_def issued_ids_def)
next
  case (Cons ev evs)
  then show ?case
    by (cases ev) (auto simp: issued_def issued_ids_def)
qed

lemma settled_handles_le_issued:
  "card (settled_handles k (run evs init_registry)) \<le> issued k evs"
proof -
  have "handles_follow_issues [] init_registry"
    by (simp add: handles_follow_issues_def init_registry_def)
  from follow_run [OF this, of evs]
  have f: "handles_follow_issues (issued_ids evs) (run evs init_registry)"
    by simp
  have "settled_handles k (run evs init_registry) \<subseteq>
          {i. i < length (issued_ids evs) \<and> issued_ids evs ! i = k}"
    using f unfolding settled_handles_def handles_follow_issues_def by auto
  then have "card (settled_handles k (run evs init_registry)) \<le>
          card {i. i < length (issued_ids evs) \<and> issued_ids evs ! i = k}"
    by (intro card_mono) simp_all
  also have "\<dots> = issued k evs"
    unfolding issued_by_ids by (simp add: length_filter_conv_card)
  finally show ?thesis .
qed

text \<open>
  The listener on a snapshot: for an id that is pending, the first record of the snapshot
  with that id resolves the promise of the entry and no other call is made for the id;
  for an id that is not pending no call is made.
\<close>

lemma generateCommandId_not_empty: "generateCommandId now rnd \<noteq> []"
  by (simp add: generateCommandId_def)

lemma ackUpdater_calls_other:
  "ack_commandId ack \<noteq> k \<Longrightarrow>
   filter (\<lambda>c. call_id c = k) (calls (ackUpdater now ack s)) =
     filter (\<lambda>c. call_id c = k) (calls s) \<and>
   map_of (pendingCommands (ackUpdater now ack s)) k = map_of (pendingCommands s) k"
  by (simp add: ackUpdater_def delete_conv' split: option.splits)

lemma onAckSnapshot_calls_absent:
  "map_of (pendingCommands s) k = None \<Longrightarrow>
   filter (\<lambda>c. call_id c = k) (calls (onAckSnapshot now acks s)) =
     filter (\<lambda>c. call_id c = k) (calls s)"
proof (induction acks arbitrary: s)
  case Nil
  show ?case by (simp add: onAckSnapshot_def)
next
  case (Cons a acks)
  let ?s = "if ack_commandId a \<noteq> [] then ackUpdater now a s else s"
  have e: "onAckSnapshot now (a # acks) s = onAckSnapshot now acks ?s"
    by (simp add: onAckSnapshot_def)
  have n: "map_of (pendingCommands ?s) k = None"
    using Cons.prems by (simp add: ackUpdater_keeps_absent)
  have c: "filter (\<lambda>c. call_id c = k) (calls ?s) = filter (\<lambda>c. call_id c = k) (calls s)"
  proof (cases "ack_commandId a = k")
    case True
    with Cons.prems have "ackUpdater now a s = s"
      by (simp add: ackUpdater_absent)
    then show ?thesis by simp
  next
    case False
    then show ?thesis by (simp add: ackUpdater_calls_other)
  qed
  show ?case
    unfolding e using Cons.IH [OF n] c by simp
qed

lemma onAckSnapshot_resolves_first:
  assumes "find (\<lambda>a. ack_commandId a = k) acks = Some ack" and "k \<noteq> []"
    and "map_of (pendingCommands s) k = Some cmd"
  shows "filter (\<lambda>c. call_id c = k) (calls (onAckSnapshot now acks s)) =
           filter (\<lambda>c. call_id c = k) (calls s) @ [Call ByAck k (pc_handle cmd) (Resolve ack)]"
  using assms
proof (induction acks arbitrary: s)
  case Nil
  then show ?case by simp
next
  case (Cons a acks)
  show ?case
  proof (cases "ack_commandId a = k")
    case True
    with Cons.prems(1) have a: "a = ack" by simp
    have e: "onAckSnapshot now (a # acks) s = onAckSnapshot now acks (ackUpdater now ack s)"
      using True Cons.prems(2) by (simp add: onAckSnapshot_def a)
    have n: "map_of (pendingCommands (ackUpdater now ack s)) k = None"
      using ackUpdater_removes [of now ack s] True a by simp
    have c: "calls (ackUpdater now ack s) =
        calls s @ [Call ByAck k (pc_handle cmd) (Resolve ack)]"
      using Cons.prems(3) True a by (simp add: ackUpdater_def)
    show ?thesis
      unfolding e onAckSnapshot_calls_absent [OF n] c by simp
  next
    case False
    let ?s = "if ack_commandId a \<noteq> [] then ackUpdater now a s else s"
    have e: "onAckSnapshot now (a # acks) s = onAckSnapshot now acks ?s"
      by (simp add: onAckSnapshot_def)
    from False Cons.prems(1) have f: "find (\<lambda>a. ack_commandId a = k) acks = Some ack"
      by simp
    have p: "map_of (pendingCommands ?s) k = Some cmd"
      using False Cons.prems(3) by (simp add: ackUpdater_calls_other)
    have c: "filter (\<lambda>c. call_id c = k) (calls ?s) = filter (\<lambda>c. call_id c = k) (calls s)"
      using False by (simp add: ackUpdater_calls_other)
    show ?thesis
      unfolding e using Cons.IH [OF f Cons.prems(2) p] c by simp
  qed
qed

lemma find_ack_in_set:
  "find (\<lambda>a. ack_commandId a = k) acks = Some ack \<Longrightarrow> ack \<in> set acks \<and> ack_commandId ack = k"
  by (induction acks) (auto split: if_splits)

lemma onAckSnapshot_single_entry:
  assumes "find (\<lambda>a. ack_commandId a = k) acks = Some ack" and "k \<noteq> []"
    and "pendingCommands s = [(k, cmd)]"
  shows "onAckSnapshot now acks s =
     s\<lparr> pendingCommands := [],
        calls := calls s @ [Call ByAck k (pc_handle cmd) (Resolve ack)],
        ackDeletions := ackDeletions s @ [(now + 5000, k)] \<rparr>"
  using assms
proof (induction acks arbitrary: s)
  case Nil
  then show ?case by simp
next
  case (Cons a acks)
  show ?case
  proof (cases "ack_commandId a = k")
    case True
    with Cons.prems(1) have a: "a = ack" by simp
    have u: "ackUpdater now ack s =
       s\<lparr> pendingCommands := [],
          calls := calls s @ [Call ByAck k (pc_handle cmd) (Resolve ack)],
          ackDeletions := ackDeletions s @ [(now + 5000, k)] \<rparr>"
      using True a Cons.prems(3) by (simp add: ackUpdater_def AList.delete_eq)
    have r: "onAckSnapshot now acks (ackUpdater now ack s) = ackUpdater now ack s"
      by (rule onAckSnapshot_absent) (simp add: u)
    have e: "onAckSnapshot now (a # acks) s = onAckSnapshot now acks (ackUpdater now ack s)"
      using True Cons.prems(2) by (simp add: onAckSnapshot_def a)
    from e r show ?thesis
      unfolding u by (rule trans)
  next
    case False
    then have "ackUpdater now a s = s"
      using Cons.prems(3) by (simp add: ackUpdater_def)
    then have e: "onAckSnapshot now (a # acks) s = onAckSnapshot now acks s"
      by (simp add: onAckSnapshot_def)
    from False Cons.prems(1) have f: "find (\<lambda>a. ack_commandId a = k) acks = Some ack"
      by simp
    show ?thesis
      unfolding e by (rule Cons.IH [OF f Cons.prems(2,3)])
  qed
qed

lemma run_snoc: "run (evs @ [ev]) s = step ev (run evs s)"
  by (simp add: run_def)

lemma fireTimers_no_pending:
  "pendingCommands s = [] \<Longrightarrow>
   pendingCommands (fireTimers now s) = [] \<and> calls (fireTimers now s) = calls s"
proof -
  have "pendingCommands s = [] \<Longrightarrow>
     pendingCommands (fold (\<lambda>t s'. timeoutUpdater (fst (snd t)) (snd (snd t)) s') ts s) = [] \<and>
     calls (fold (\<lambda>t s'. timeoutUpdater (fst (snd t)) (snd (snd t)) s') ts s) = calls s"
    for ts s
    by (induction ts arbitrary: s) (simp_all add: timeoutUpdater_def)
  from this [of "s\<lparr>timers := filter (\<lambda>t. \<not> fst t \<le> now) (timers s)\<rparr>"]
  show "pendingCommands s = [] \<Longrightarrow>
   pendingCommands (fireTimers now s) = [] \<and> calls (fireTimers now s) = calls s"
    unfolding fireTimers_def by simp
qed

lemma scenario_before_deadline:
  assumes "t < written + 10000"
  shows "run [Issue issuedAt rnd commandType, Written written 0, Elapse t] init_registry =
     \<lparr> pendingCommands =
         [(generateCommandId issuedAt rnd,
           \<lparr> pc_id = generateCommandId issuedAt rnd, pc_type = commandType,
             pc_timestamp = issuedAt, pc_handle = 0 \<rparr>)],
       calls = [], awaiting = [],
       timers = [(written + 10000, generateCommandId issuedAt rnd, commandType)],
       ackDeletions = [], nextHandle = 1 \<rparr>"
  using assms
  by (simp add: run_def step_def fireTimers_def sendCommandWithAck_register_def
      sendCommandWithAck_written_def init_registry_def AList.delete_eq Let_def)

lemma scenario_acknowledged:
  assumes "t < written + 10000"
    and "find (\<lambda>a. ack_commandId a = generateCommandId issuedAt rnd) acks = Some ack"
  shows "run [Issue issuedAt rnd commandType, Written written 0, AckSnapshot t acks]
           init_registry =
     \<lparr> pendingCommands = [],
       calls = [Call ByAck (generateCommandId issuedAt rnd) 0 (Resolve ack)],
       awaiting = [],
       timers = [(written + 10000, generateCommandId issuedAt rnd, commandType)],
       ackDeletions = [(t + 5000, generateCommandId issuedAt rnd)], nextHandle = 1 \<rparr>"
proof -
  let ?s = "run [Issue issuedAt rnd commandType, Written written 0, Elapse t] init_registry"
  have "run [Issue issuedAt rnd commandType, Written written 0, AckSnapshot t acks]
           init_registry = onAckSnapshot t acks ?s"
    by (simp add: run_def step_def)
  also have "\<dots> = ?s\<lparr> pendingCommands := [],
        calls := calls ?s @ [Call ByAck (generateCommandId issuedAt rnd)
          (pc_handle \<lparr> pc_id = generateCommandId issuedAt rnd, pc_type = commandType,
             pc_timestamp = issuedAt, pc_handle = 0 \<rparr>) (Resolve ack)],
        ackDeletions := ackDeletions ?s @ [(t + 5000, generateCommandId issuedAt rnd)] \<rparr>"
    by (rule onAckSnapshot_single_entry [OF assms(2) generateCommandId_not_empty])
       (simp add: scenario_before_deadline [OF assms(1)])
  finally show ?thesis
    by (simp add: scenario_before_deadline [OF assms(1)])
qed

lemma scenario_acknowledged_twice:
  assumes "t < written + 10000"
    and "find (\<lambda>a. ack_commandId a = generateCommandId issuedAt rnd) acks = Some ack"
  shows "calls (run [Issue issuedAt rnd commandType, Written written 0, AckSnapshot t acks,
                     AckSnapshot t' acks'] init_registry) =
           [Call ByAck (generateCommandId issuedAt rnd) 0 (Resolve ack)]"
    and "pendingCommands (run [Issue issuedAt rnd commandType, Written written 0,
                     AckSnapshot t acks, AckSnapshot t' acks'] init_registry) = []"
proof -
  let ?s = "run [Issue issuedAt rnd commandType, Written written 0, AckSnapshot t acks]
    init_registry"
  have p: "pendingCommands ?s = []"
    and c: "calls ?s = [Call ByAck (generateCommandId issuedAt rnd) 0 (Resolve ack)]"
    by (simp_all add: scenario_acknowledged [OF assms])
  have r: "run [Issue issuedAt rnd commandType, Written written 0, AckSnapshot t acks,
                AckSnapshot t' acks'] init_registry =
           onAckSnapshot t' acks' (fireTimers t' ?s)"
    using run_snoc [of "[Issue issuedAt rnd commandType, Written written 0, AckSnapshot t acks]"
      "AckSnapshot t' acks'" init_registry]
    by (simp add: step_def)
  note f = fireTimers_no_pending [OF p, of t']
  have "onAckSnapshot t' acks' (fireTimers t' ?s) = fireTimers t' ?s"
    by (rule onAckSnapshot_absent) (simp add: f)
  then show "calls (run [Issue issuedAt rnd commandType, Written written 0, AckSnapshot t acks,
                     AckSnapshot t' acks'] init_registry) =
           [Call ByAck (generateCommandId issuedAt rnd) 0 (Resolve ack)]"
    and "pendingCommands (run [Issue issuedAt rnd commandType, Written written 0,
                     AckSnapshot t acks, AckSnapshot t' acks'] init_registry) = []"
    unfolding r using f c by simp_all
qed

lemma timeoutUpdater_calls_absent:
  "map_of (pendingCommands s) k = None \<Longrightarrow>
   filter (\<lambda>c. call_id c = k) (calls (timeoutUpdater commandId commandType s)) =
     filter (\<lambda>c. call_id c = k) (calls s) \<and>
   map_of (pendingCommands (timeoutUpdater commandId commandType s)) k = None"
  by (cases "commandId = k") (auto simp: timeoutUpdater_def delete_conv' split: option.splits)

lemma fold_timeoutUpdater_calls_absent:
  "map_of (pendingCommands s) k = None \<Longrightarrow>
   filter (\<lambda>c. call_id c = k)
     (calls (fold (\<lambda>t s'. timeoutUpdater (fst (snd t)) (snd (snd t)) s') ts s)) =
     filter (\<lambda>c. call_id c = k) (calls s) \<and>
   map_of (pendingCommands (fold (\<lambda>t s'. timeoutUpdater (fst (snd t)) (snd (snd t)) s') ts s)) k =
     None"
proof (induction ts arbitrary: s)
  case Nil
  then show ?case by simp
next
  case (Cons t ts)
  note u = timeoutUpdater_calls_absent [OF Cons.prems, of "fst (snd t)" "snd (snd t)"]
  from Cons.IH [of "timeoutUpdater (fst (snd t)) (snd (snd t)) s"] u
  show ?case by simp
qed

lemma fireTimers_calls_absent:
  assumes "map_of (pendingCommands s) k = None"
  shows "filter (\<lambda>c. call_id c = k) (calls (fireTimers now s)) =
           filter (\<lambda>c. call_id c = k) (calls s)"
    and "map_of (pendingCommands (fireTimers now s)) k = None"
  using fold_timeoutUpdater_calls_absent
    [of "s\<lparr>timers := filter (\<lambda>t. \<not> fst t \<le> now) (timers s)\<rparr>" k
        "filter (\<lambda>t. fst t \<le> now) (timers s)"] assms
  unfolding fireTimers_def by simp_all

lemma run_acknowledged:
  assumes "map_of (pendingCommands (run (evs @ [Elapse now]) init_registry)) k = Some cmd"
    and "find (\<lambda>a. ack_commandId a = k) acks = Some ack" and "k \<noteq> []"
  shows "filter (\<lambda>c. call_id c = k)
           (calls (run (evs @ [AckSnapshot now acks]) init_registry)) =
         filter (\<lambda>c. call_id c = k) (calls (run (evs @ [Elapse now]) init_registry)) @
           [Call ByAck k (pc_handle cmd) (Resolve ack)]"
    and "map_of (pendingCommands (run (evs @ [AckSnapshot now acks]) init_registry)) k = None"
    and "filter (\<lambda>c. call_id c = k)
           (calls (run (evs @ [AckSnapshot now acks, AckSnapshot now' acks']) init_registry)) =
         filter (\<lambda>c. call_id c = k)
           (calls (run (evs @ [AckSnapshot now acks]) init_registry))"
proof -
  let ?s = "fireTimers now (run evs init_registry)"
  have e: "run (evs @ [Elapse now]) init_registry = ?s"
    by (simp add: run_snoc step_def)
  have a: "run (evs @ [AckSnapshot now acks]) init_registry = onAckSnapshot now acks ?s"
    by (simp add: run_snoc step_def)
  have p: "map_of (pendingCommands ?s) k = Some cmd"
    using assms(1) unfolding e .
  show "filter (\<lambda>c. call_id c = k)
           (calls (run (evs @ [AckSnapshot now acks]) init_registry)) =
         filter (\<lambda>c. call_id c = k) (calls (run (evs @ [Elapse now]) init_registry)) @
           [Call ByAck k (pc_handle cmd) (Resolve ack)]"
    unfolding e a by (rule onAckSnapshot_resolves_first [OF assms(2,3) p])
  from assms(2) have "ack \<in> set acks \<and> ack_commandId ack = k"
    by (rule find_ack_in_set)
  with assms(3) onAckSnapshot_removes [of ack acks now ?s]
  have n: "map_of (pendingCommands (onAckSnapshot now acks ?s)) k = None"
    by simp
  then show "map_of (pendingCommands (run (evs @ [AckSnapshot now acks]) init_registry)) k = None"
    unfolding a .
  have "run (evs @ [AckSnapshot now acks, AckSnapshot now' acks']) init_registry =
      step (AckSnapshot now' acks') (run (evs @ [AckSnapshot now acks]) init_registry)"
    using run_snoc [of "evs @ [AckSnapshot now acks]" "AckSnapshot now' acks'" init_registry]
    by simp
  then have b: "run (evs @ [AckSnapshot now acks, AckSnapshot now' acks']) init_registry =
      onAckSnapshot now' acks' (fireTimers now' (onAckSnapshot now acks ?s))"
    unfolding a by (simp add: step_def)
  note f = fireTimers_calls_absent [OF n, of now']
  show "filter (\<lambda>c. call_id c = k)
           (calls (run (evs @ [AckSnapshot now acks, AckSnapshot now' acks']) init_registry)) =
         filter (\<lambda>c. call_id c = k)
           (calls (run (evs @ [AckSnapshot now acks]) init_registry))"
    unfolding b a onAckSnapshot_calls_absent [OF f(2)] f(1) ..
qed

text \<open>
  Claim C1, as amended. An acknowledgment whose \<^verbatim>\<open>commandId\<close> matches a pending entry
  calls the \<^verbatim>\<open>resolve\<close> of that entry with the acknowledgment and removes the entry in the
  same update, which settles the promise if it was unsettled; an acknowledgment without a
  matching entry leaves the state as it is, and so does a second delivery of the same
  acknowledgment. The listener does this for a whole snapshot: for a pending id, exactly
  one call is added for the id, the \<^verbatim>\<open>resolve\<close> of the entry with the first record of the
  snapshot that carries the id, and the entry is gone; a snapshot none of whose records
  matches a pending entry changes nothing, and neither does a second delivery of a
  snapshot. In the run of a single command whose acknowledgment arrives before the
  timeout, the promise is resolved with the acknowledgment, the registry is empty, and a
  further snapshot, whatever it holds and whenever it arrives, adds no call. After any
  run, a snapshot that arrives while an id is pending adds exactly one call for the id,
  the \<^verbatim>\<open>resolve\<close> of its entry, and removes the entry, and the next snapshot adds no call
  for the id. In every run and for every id, the calls of the registry (acknowledgment,
  timeout and clean-up) are at most as many as the invocations that generated the id, and
  so are the promises that receive a call for the id from anyone, the \<^verbatim>\<open>catch\<close> block
  included: at most one promise for an id that was generated once.
\<close>

theorem acknowledgment_settles_once:
  "(map_of (pendingCommands s) (ack_commandId ack) = Some cmd \<longrightarrow>
      pendingCommands (ackUpdater now ack s) =
        AList.delete (ack_commandId ack) (pendingCommands s) \<and>
      calls (ackUpdater now ack s) =
        calls s @ [Call ByAck (ack_commandId ack) (pc_handle cmd) (Resolve ack)] \<and>
      map_of (pendingCommands (ackUpdater now ack s)) (ack_commandId ack) = None \<and>
      (promise_state (calls s) (pc_handle cmd) = None \<longrightarrow>
         promise_state (calls (ackUpdater now ack s)) (pc_handle cmd) = Some (Resolve ack))) \<and>
   (map_of (pendingCommands s) (ack_commandId ack) = None \<longrightarrow> ackUpdater now ack s = s) \<and>
   ackUpdater now' ack (ackUpdater now ack s) = ackUpdater now ack s \<and>
   (find (\<lambda>a. ack_commandId a = k) acks = Some ack \<and> k \<noteq> [] \<and>
    map_of (pendingCommands s) k = Some cmd \<longrightarrow>
      filter (\<lambda>c. call_id c = k) (calls (onAckSnapshot now acks s)) =
        filter (\<lambda>c. call_id c = k) (calls s) @
        [Call ByAck k (pc_handle cmd) (Resolve ack)] \<and>
      map_of (pendingCommands (onAckSnapshot now acks s)) k = None) \<and>
   ((\<forall>a \<in> set acks. ack_commandId a \<noteq> [] \<longrightarrow>
        map_of (pendingCommands s) (ack_commandId a) = None) \<longrightarrow>
      onAckSnapshot now acks s = s) \<and>
   onAckSnapshot now' acks (onAckSnapshot now acks s) = onAckSnapshot now acks s \<and>
   (t < written + 10000 \<and>
    find (\<lambda>a. ack_commandId a = generateCommandId issuedAt rnd) acks = Some ack \<longrightarrow>
      calls (run [Issue issuedAt rnd commandType, Written written 0, AckSnapshot t acks]
               init_registry) =
        [Call ByAck (generateCommandId issuedAt rnd) 0 (Resolve ack)] \<and>
      pendingCommands (run [Issue issuedAt rnd commandType, Written written 0,
                            AckSnapshot t acks] init_registry) = [] \<and>
      promise_state
        (calls (run [Issue issuedAt rnd commandType, Written written 0, AckSnapshot t acks]
                  init_registry)) 0 = Some (Resolve ack) \<and>
      calls (run [Issue issuedAt rnd commandType, Written written 0, AckSnapshot t acks,
                  AckSnapshot t' acks'] init_registry) =
        [Call ByAck (generateCommandId issuedAt rnd) 0 (Resolve ack)] \<and>
      pendingCommands (run [Issue issuedAt rnd commandType, Written written 0,
                            AckSnapshot t acks, AckSnapshot t' acks'] init_registry) = []) \<and>
   (map_of (pendingCommands (run (evs @ [Elapse now]) init_registry)) k = Some cmd \<and>
    find (\<lambda>a. ack_commandId a = k) acks = Some ack \<and> k \<noteq> [] \<longrightarrow>
      filter (\<lambda>c. call_id c = k)
        (calls (run (evs @ [AckSnapshot now acks]) init_registry)) =
        filter (\<lambda>c. call_id c = k) (calls (run (evs @ [Elapse now]) init_registry)) @
        [Call ByAck k (pc_handle cmd) (Resolve ack)] \<and>
      map_of (pendingCommands (run (evs @ [AckSnapshot now acks]) init_registry)) k = None \<and>
      filter (\<lambda>c. call_id c = k)
        (calls (run (evs @ [AckSnapshot now acks, AckSnapshot now' acks']) init_registry)) =
        filter (\<lambda>c. call_id c = k)
          (calls (run (evs @ [AckSnapshot now acks]) init_registry))) \<and>
   settled commandId (run evs init_registry) \<le> issued commandId evs \<and>
   card (settled_handles commandId (run evs init_registry)) \<le> issued commandId evs \<and>
   (issued commandId evs \<le> 1 \<longrightarrow>
      settled commandId (run evs init_registry) \<le> 1 \<and>
      card (settled_handles commandId (run evs init_registry)) \<le> 1)"
proof (intro conjI impI)
  assume c: "map_of (pendingCommands s) (ack_commandId ack) = Some cmd"
  then show "pendingCommands (ackUpdater now ack s) =
        AList.delete (ack_commandId ack) (pendingCommands s)"
    and e: "calls (ackUpdater now ack s) =
        calls s @ [Call ByAck (ack_commandId ack) (pc_handle cmd) (Resolve ack)]"
    by (simp_all add: ackUpdater_def)
  show "map_of (pendingCommands (ackUpdater now ack s)) (ack_commandId ack) = None"
    by (rule ackUpdater_removes)
  assume "promise_state (calls s) (pc_handle cmd) = None"
  then show "promise_state (calls (ackUpdater now ack s)) (pc_handle cmd) = Some (Resolve ack)"
    unfolding e by (rule promise_state_append)
next
  assume "map_of (pendingCommands s) (ack_commandId ack) = None"
  then show "ackUpdater now ack s = s"
    by (rule ackUpdater_absent)
next
  show "ackUpdater now' ack (ackUpdater now ack s) = ackUpdater now ack s"
    by (rule ackUpdater_absent) (rule ackUpdater_removes)
next
  assume h: "find (\<lambda>a. ack_commandId a = k) acks = Some ack \<and> k \<noteq> [] \<and>
    map_of (pendingCommands s) k = Some cmd"
  then show "filter (\<lambda>c. call_id c = k) (calls (onAckSnapshot now acks s)) =
        filter (\<lambda>c. call_id c = k) (calls s) @
        [Call ByAck k (pc_handle cmd) (Resolve ack)]"
    by (intro onAckSnapshot_resolves_first) simp_all
  from h have "ack \<in> set acks \<and> ack_commandId ack = k"
    by (intro find_ack_in_set) simp
  with h onAckSnapshot_removes [of ack acks now s]
  show "map_of (pendingCommands (onAckSnapshot now acks s)) k = None"
    by simp
next
  assume "\<forall>a \<in> set acks. ack_commandId a \<noteq> [] \<longrightarrow>
        map_of (pendingCommands s) (ack_commandId a) = None"
  then show "onAckSnapshot now acks s = s"
    by (intro onAckSnapshot_absent) simp
next
  show "onAckSnapshot now' acks (onAckSnapshot now acks s) = onAckSnapshot now acks s"
    by (rule onAckSnapshot_twice)
next
  assume h: "t < written + 10000 \<and>
    find (\<lambda>a. ack_commandId a = generateCommandId issuedAt rnd) acks = Some ack"
  then have h1: "t < written + 10000"
    and h2: "find (\<lambda>a. ack_commandId a = generateCommandId issuedAt rnd) acks = Some ack"
    by simp_all
  note e = scenario_acknowledged [OF h1 h2, of commandType]
  show "calls (run [Issue issuedAt rnd commandType, Written written 0, AckSnapshot t acks]
               init_registry) =
        [Call ByAck (generateCommandId issuedAt rnd) 0 (Resolve ack)]"
    and "pendingCommands (run [Issue issuedAt rnd commandType, Written written 0,
                            AckSnapshot t acks] init_registry) = []"
    and "promise_state
        (calls (run [Issue issuedAt rnd commandType, Written written 0, AckSnapshot t acks]
                  init_registry)) 0 = Some (Resolve ack)"
    unfolding e by (simp_all add: promise_state_def)
  show "calls (run [Issue issuedAt rnd commandType, Written written 0, AckSnapshot t acks,
                  AckSnapshot t' acks'] init_registry) =
        [Call ByAck (generateCommandId issuedAt rnd) 0 (Resolve ack)]"
    and "pendingCommands (run [Issue issuedAt rnd commandType, Written written 0,
                            AckSnapshot t acks, AckSnapshot t' acks'] init_registry) = []"
    by (rule scenario_acknowledged_twice [OF h1 h2])+
next
  assume h: "map_of (pendingCommands (run (evs @ [Elapse now]) init_registry)) k = Some cmd \<and>
    find (\<lambda>a. ack_commandId a = k) acks = Some ack \<and> k \<noteq> []"
  then have h1: "map_of (pendingCommands (run (evs @ [Elapse now]) init_registry)) k = Some cmd"
    and h2: "find (\<lambda>a. ack_commandId a = k) acks = Some ack" and h3: "k \<noteq> []"
    by simp_all
  show "filter (\<lambda>c. call_id c = k)
        (calls (run (evs @ [AckSnapshot now acks]) init_registry)) =
        filter (\<lambda>c. call_id c = k) (calls (run (evs @ [Elapse now]) init_registry)) @
        [Call ByAck k (pc_handle cmd) (Resolve ack)]"
    and "map_of (pendingCommands (run (evs @ [AckSnapshot now acks]) init_registry)) k = None"
    and "filter (\<lambda>c. call_id c = k)
        (calls (run (evs @ [AckSnapshot now acks, AckSnapshot now' acks']) init_registry)) =
        filter (\<lambda>c. call_id c = k)
          (calls (run (evs @ [AckSnapshot now acks]) init_registry))"
    by (rule run_acknowledged [OF h1 h2 h3])+
next
  show "settled commandId (run evs init_registry) \<le> issued commandId evs"
    by (rule settled_le_issued)
  show "card (settled_handles commandId (run evs init_registry)) \<le> issued commandId evs"
    by (rule settled_handles_le_issued)
next
  assume i: "issued commandId evs \<le> 1"
  with settled_le_issued [of commandId evs]
  show "settled commandId (run evs init_registry) \<le> 1"
    by linarith
  from i settled_handles_le_issued [of commandId evs]
  show "card (settled_handles commandId (run evs init_registry)) \<le> 1"
    by linarith
qed

text \<open>
  The amended claim C1 on a command issued at time 0 and written at time 5: its
  acknowledgment is delivered twice, in one snapshot and in two snapshots; and on the
  empty registry, where the acknowledgment matches nothing.
\<close>

theorem acknowledgment_settles_once_witness:
  "calls (ackUpdater 9
      \<lparr> ack_commandId = ''cmd_0_abc'', ack_type = ''RELAY_CONTROL'', ack_result = ''OK'',
        ack_processed = True, ack_timestamp = 7, ack_deviceTime = 7 \<rparr>
      (run [Issue 0 ''0.abc'' ''RELAY_CONTROL'', Written 5 0] init_registry)) =
     [Call ByAck ''cmd_0_abc'' 0
        (Resolve \<lparr> ack_commandId = ''cmd_0_abc'', ack_type = ''RELAY_CONTROL'',
                   ack_result = ''OK'', ack_processed = True, ack_timestamp = 7,
                   ack_deviceTime = 7 \<rparr>)] \<and>
   ackUpdater 9
      \<lparr> ack_commandId = ''cmd_0_abc'', ack_type = ''RELAY_CONTROL'', ack_result = ''OK'',
        ack_processed = True, ack_timestamp = 7, ack_deviceTime = 7 \<rparr> init_registry =
     init_registry \<and>
   onAckSnapshot 9
      [\<lparr> ack_commandId = ''cmd_0_abc'', ack_type = ''RELAY_CONTROL'', ack_result = ''OK'',
         ack_processed = True, ack_timestamp = 7, ack_deviceTime = 7 \<rparr>] init_registry =
     init_registry \<and>
   calls (onAckSnapshot 9
      [\<lparr> ack_commandId = ''cmd_0_abc'', ack_type = ''RELAY_CONTROL'', ack_result = ''OK'',
         ack_processed = True, ack_timestamp = 7, ack_deviceTime = 7 \<rparr>,
       \<lparr> ack_commandId = ''cmd_0_abc'', ack_type = ''RELAY_CONTROL'', ack_result = ''LATE'',
         ack_processed = False, ack_timestamp = 8, ack_deviceTime = 8 \<rparr>]
      (run [Issue 0 ''0.abc'' ''RELAY_CONTROL'', Written 5 0] init_registry)) =
     [Call ByAck ''cmd_0_abc'' 0
        (Resolve \<lparr> ack_commandId = ''cmd_0_abc'', ack_type = ''RELAY_CONTROL'',
                   ack_result = ''OK'', ack_processed = True, ack_timestamp = 7,
                   ack_deviceTime = 7 \<rparr>)] \<and>
   calls
     (run [Issue 0 ''0.abc'' ''RELAY_CONTROL'', Written 5 0,
           AckSnapshot 9
             [\<lparr> ack_commandId = ''cmd_0_abc'', ack_type = ''RELAY_CONTROL'', ack_result = ''OK'',
                ack_processed = True, ack_timestamp = 7, ack_deviceTime = 7 \<rparr>],
           AckSnapshot 10
             [\<lparr> ack_commandId = ''cmd_0_abc'', ack_type = ''RELAY_CONTROL'', ack_result = ''OK'',
                ack_processed = True, ack_timestamp = 7, ack_deviceTime = 7 \<rparr>]]
        init_registry) =
     [Call ByAck ''cmd_0_abc'' 0
        (Resolve \<lparr> ack_commandId = ''cmd_0_abc'', ack_type = ''RELAY_CONTROL'',
                   ack_result = ''OK'', ack_processed = True, ack_timestamp = 7,
                   ack_deviceTime = 7 \<rparr>)] \<and>
   map_of
     (pendingCommands
        (run [Issue 0 ''0.abc'' ''RELAY_CONTROL'', Written 5 0,
              AckSnapshot 9
                [\<lparr> ack_commandId = ''cmd_0_abc'', ack_type = ''RELAY_CONTROL'',
                   ack_result = ''OK'', ack_processed = True, ack_timestamp = 7,
                   ack_deviceTime = 7 \<rparr>]] init_registry)) ''cmd_0_abc'' = None \<and>
   settled ''cmd_0_abc''
     (run [Issue 0 ''0.abc'' ''RELAY_CONTROL'', Written 5 0,
           AckSnapshot 9
             [\<lparr> ack_commandId = ''cmd_0_abc'', ack_type = ''RELAY_CONTROL'', ack_result = ''OK'',
                ack_processed = True, ack_timestamp = 7, ack_deviceTime = 7 \<rparr>],
           AckSnapshot 10
             [\<lparr> ack_commandId = ''cmd_0_abc'', ack_type = ''RELAY_CONTROL'', ack_result = ''OK'',
                ack_processed = True, ack_timestamp = 7, ack_deviceTime = 7 \<rparr>]]
        init_registry) = 1 \<and>
   card (settled_handles ''cmd_0_abc''
     (run [Issue 0 ''0.abc'' ''RELAY_CONTROL'', Written 5 0,
           AckSnapshot 9
             [\<lparr> ack_commandId = ''cmd_0_abc'', ack_type = ''RELAY_CONTROL'', ack_result = ''OK'',
                ack_processed = True, ack_timestamp = 7, ack_deviceTime = 7 \<rparr>],
           AckSnapshot 10
             [\<lparr> ack_commandId = ''cmd_0_abc'', ack_type = ''RELAY_CONTROL'', ack_result = ''OK'',
                ack_processed = True, ack_timestamp = 7, ack_deviceTime = 7 \<rparr>]]
        init_registry)) = 1"
proof -
  let ?ack = "\<lparr> ack_commandId = ''cmd_0_abc'', ack_type = ''RELAY_CONTROL'',
    ack_result = ''OK'', ack_processed = True, ack_timestamp = 7, ack_deviceTime = 7 \<rparr>"
  let ?late = "\<lparr> ack_commandId = ''cmd_0_abc'', ack_type = ''RELAY_CONTROL'',
    ack_result = ''LATE'', ack_processed = False, ack_timestamp = 8, ack_deviceTime = 8 \<rparr>"
  let ?cmd = "\<lparr> pc_id = ''cmd_0_abc'', pc_type = ''RELAY_CONTROL'', pc_timestamp = 0,
    pc_handle = 0 \<rparr>"
  let ?s = "run [Issue 0 ''0.abc'' ''RELAY_CONTROL'', Written 5 0] init_registry"
  let ?evs = "[Issue 0 ''0.abc'' ''RELAY_CONTROL'', Written 5 0, AckSnapshot 9 [?ack],
    AckSnapshot 10 [?ack]]"
  let ?c = "Call ByAck ''cmd_0_abc'' 0 (Resolve ?ack)"
  have id: "generateCommandId 0 ''0.abc'' = ''cmd_0_abc''"
    by (simp add: generateCommandId_def decimal.simps [of 0] digit_char_def substr_def)
  have s: "?s = \<lparr> pendingCommands = [(''cmd_0_abc'', ?cmd)], calls = [], awaiting = [],
      timers = [(10005, ''cmd_0_abc'', ''RELAY_CONTROL'')], ackDeletions = [],
      nextHandle = 1 \<rparr>"
    by (simp add: run_def step_def fireTimers_def sendCommandWithAck_register_def
        sendCommandWithAck_written_def init_registry_def id AList.delete_eq Let_def)
  have p: "map_of (pendingCommands ?s) (ack_commandId ?ack) = Some ?cmd"
    and q: "promise_state (calls ?s) (pc_handle ?cmd) = None"
    unfolding s by (simp_all add: promise_state_def)
  have n: "map_of (pendingCommands init_registry) (ack_commandId ?ack) = None"
    by (simp add: init_registry_def)
  have i: "issued ''cmd_0_abc'' ?evs \<le> 1"
    by (simp add: issued_def id)
  from acknowledgment_settles_once [where s = ?s and ack = ?ack and cmd = ?cmd and now = 9] p q
  have t1: "calls (ackUpdater 9 ?ack ?s) = calls ?s @ [?c]"
    by simp
  from acknowledgment_settles_once [where s = init_registry and ack = ?ack and now = 9] n
  have t2: "ackUpdater 9 ?ack init_registry = init_registry"
    by blast
  have "\<forall>a \<in> set [?ack]. ack_commandId a \<noteq> [] \<longrightarrow>
      map_of (pendingCommands init_registry) (ack_commandId a) = None"
    by (simp add: init_registry_def)
  with acknowledgment_settles_once [where s = init_registry and acks = "[?ack]" and now = 9]
  have t3: "onAckSnapshot 9 [?ack] init_registry = init_registry"
    by blast
  have "find (\<lambda>a. ack_commandId a = ''cmd_0_abc'') [?ack, ?late] = Some ?ack \<and>
      ''cmd_0_abc'' \<noteq> [] \<and> map_of (pendingCommands ?s) ''cmd_0_abc'' = Some ?cmd"
    unfolding s by simp
  with acknowledgment_settles_once [where s = ?s and acks = "[?ack, ?late]" and ack = ?ack
      and cmd = ?cmd and k = "''cmd_0_abc''" and now = 9]
  have f: "filter (\<lambda>c. call_id c = ''cmd_0_abc'') (calls (onAckSnapshot 9 [?ack, ?late] ?s)) =
      filter (\<lambda>c. call_id c = ''cmd_0_abc'') (calls ?s) @ [?c]"
    by simp
  have "calls (onAckSnapshot 9 [?ack, ?late] ?s) =
      filter (\<lambda>c. call_id c = ''cmd_0_abc'') (calls (onAckSnapshot 9 [?ack, ?late] ?s))"
    unfolding s by (simp add: onAckSnapshot_def ackUpdater_def AList.delete_eq)
  with f have t4: "calls (onAckSnapshot 9 [?ack, ?late] ?s) = [?c]"
    unfolding s by simp
  have "(9::nat) < 5 + 10000 \<and>
      find (\<lambda>a. ack_commandId a = generateCommandId 0 ''0.abc'') [?ack] = Some ?ack"
    by (simp add: id)
  with acknowledgment_settles_once [where t = 9 and written = 5 and issuedAt = 0
      and rnd = "''0.abc''" and acks = "[?ack]" and ack = ?ack
      and commandType = "''RELAY_CONTROL''" and t' = 10 and acks' = "[?ack]"]
  have t5: "calls (run ?evs init_registry) = [?c]"
    unfolding id by simp
  have "map_of (pendingCommands
        (run ([Issue 0 ''0.abc'' ''RELAY_CONTROL'', Written 5 0] @ [Elapse 9]) init_registry))
        ''cmd_0_abc'' = Some ?cmd \<and>
      find (\<lambda>a. ack_commandId a = ''cmd_0_abc'') [?ack] = Some ?ack \<and> ''cmd_0_abc'' \<noteq> []"
    using scenario_before_deadline [of 9 5 0 "''0.abc''" "''RELAY_CONTROL''"]
    by (simp add: id)
  with acknowledgment_settles_once
      [where evs = "[Issue 0 ''0.abc'' ''RELAY_CONTROL'', Written 5 0]" and now = 9
        and k = "''cmd_0_abc''" and cmd = ?cmd and acks = "[?ack]" and ack = ?ack]
  have t8: "map_of (pendingCommands
        (run [Issue 0 ''0.abc'' ''RELAY_CONTROL'', Written 5 0, AckSnapshot 9 [?ack]]
           init_registry)) ''cmd_0_abc'' = None"
    by simp
  from acknowledgment_settles_once [where commandId = "''cmd_0_abc''" and evs = ?evs] i
  have le: "settled ''cmd_0_abc'' (run ?evs init_registry) \<le> 1"
    and lc: "card (settled_handles ''cmd_0_abc'' (run ?evs init_registry)) \<le> 1"
    by blast+
  have t6: "settled ''cmd_0_abc'' (run ?evs init_registry) = 1"
    using le unfolding settled_def t5 by simp
  have t7: "card (settled_handles ''cmd_0_abc'' (run ?evs init_registry)) = 1"
    using lc unfolding settled_handles_def t5 by simp
  from t1 t2 t3 t4 t5 t6 t7 t8 show ?thesis
    unfolding s by simp
qed

text \<open>
  Claim C1 as stated fails for an id that is generated twice. Two invocations read the
  same clock value (the clock was set back in between) and the same random number
  \<^verbatim>\<open>0.5\<close>, which is \<^verbatim>\<open>0.i\<close> in base 36. The first is acknowledged. The acknowledgment
  record is still in the store when the second is pending, and the snapshot that holds it
  resolves the promise of the second invocation as well: two promises are resolved for
  the one id.
\<close>

theorem acknowledgment_repeated_id_counterexample:
  "map call_handle
     (calls (run [Issue 1700000000000 ''0.i'' ''RELAY_CONTROL'', Written 1700000000040 0,
                  AckSnapshot 1700000000300
                    [\<lparr> ack_commandId = ''cmd_1700000000000_i'', ack_type = ''RELAY_CONTROL'',
                       ack_result = ''OK'', ack_processed = True,
                       ack_timestamp = 1700000000, ack_deviceTime = 4711 \<rparr>],
                  Issue 1700000000000 ''0.i'' ''RELAY_CONTROL'', Written 1700000000040 1,
                  AckSnapshot 1700000000300
                    [\<lparr> ack_commandId = ''cmd_1700000000000_i'', ack_type = ''RELAY_CONTROL'',
                       ack_result = ''OK'', ack_processed = True,
                       ack_timestamp = 1700000000, ack_deviceTime = 4711 \<rparr>]]
               init_registry)) = [0, 1] \<and>
   map call_id
     (calls (run [Issue 1700000000000 ''0.i'' ''RELAY_CONTROL'', Written 1700000000040 0,
                  AckSnapshot 1700000000300
                    [\<lparr> ack_commandId = ''cmd_1700000000000_i'', ack_type = ''RELAY_CONTROL'',
                       ack_result = ''OK'', ack_processed = True,
                       ack_timestamp = 1700000000, ack_deviceTime = 4711 \<rparr>],
                  Issue 1700000000000 ''0.i'' ''RELAY_CONTROL'', Written 1700000000040 1,
                  AckSnapshot 1700000000300
                    [\<lparr> ack_commandId = ''cmd_1700000000000_i'', ack_type = ''RELAY_CONTROL'',
                       ack_result = ''OK'', ack_processed = True,
                       ack_timestamp = 1700000000, ack_deviceTime = 4711 \<rparr>]]
               init_registry)) = [''cmd_1700000000000_i'', ''cmd_1700000000000_i''] \<and>
   settled ''cmd_1700000000000_i''
     (run [Issue 1700000000000 ''0.i'' ''RELAY_CONTROL'', Written 1700000000040 0,
                  AckSnapshot 1700000000300
                    [\<lparr> ack_commandId = ''cmd_1700000000000_i'', ack_type = ''RELAY_CONTROL'',
                       ack_result = ''OK'', ack_processed = True,
                       ack_timestamp = 1700000000, ack_deviceTime = 4711 \<rparr>],
                  Issue 1700000000000 ''0.i'' ''RELAY_CONTROL'', Written 1700000000040 1,
                  AckSnapshot 1700000000300
                    [\<lparr> ack_commandId = ''cmd_1700000000000_i'', ack_type = ''RELAY_CONTROL'',
                       ack_result = ''OK'', ack_processed = True,
                       ack_timestamp = 1700000000, ack_deviceTime = 4711 \<rparr>]]
               init_registry) = 2"
  by (simp add: run_def step_def fireTimers_def sendCommandWithAck_register_def
      sendCommandWithAck_written_def onAckSnapshot_def ackUpdater_def init_registry_def
      settled_def generateCommandId_def substr_def decimal.simps digit_char_def
      AList.delete_eq Let_def)

lemma scenario_after_deadline:
  assumes "written + 10000 \<le> t"
  shows "run [Issue issuedAt rnd commandType, Written written 0, Elapse t] init_registry =
     \<lparr> pendingCommands = [],
       calls = [Call ByTimeout (generateCommandId issuedAt rnd) 0
                  (Reject (''Command '' @ commandType @ '' timed out''))],
       awaiting = [], timers = [], ackDeletions = [], nextHandle = 1 \<rparr>"
  using assms
  by (simp add: run_def step_def fireTimers_def sendCommandWithAck_register_def
      sendCommandWithAck_written_def timeoutUpdater_def init_registry_def AList.delete_eq
      Let_def)

text \<open>
  Claim C2, as amended. When the store write of a command succeeds, its timeout is armed
  for 10000 ms after the completion of the write. When the timeout runs and the entry of
  the id is still pending, the promise is rejected with the error
  \<^verbatim>\<open>Command <type> timed out\<close>, which names the command type, and the entry is removed in
  the same update, so that an acknowledgment for the id arriving later changes nothing.
  For a single command this gives: no call is made and the entry is pending as long as
  less than 10000 ms have passed since the write, and from then on the promise is rejected
  with the timeout error and the registry is empty.
\<close>

theorem timeout_rejects_and_removes:
  "(map_of (awaiting s) h = Some (commandId, commandType) \<longrightarrow>
      timers (sendCommandWithAck_written h now s) =
        timers s @ [(now + 10000, commandId, commandType)] \<and>
      pendingCommands (sendCommandWithAck_written h now s) = pendingCommands s \<and>
      calls (sendCommandWithAck_written h now s) = calls s) \<and>
   (map_of (pendingCommands s) commandId = Some cmd \<longrightarrow>
      pendingCommands (timeoutUpdater commandId commandType s) =
        AList.delete commandId (pendingCommands s) \<and>
      map_of (pendingCommands (timeoutUpdater commandId commandType s)) commandId = None \<and>
      calls (timeoutUpdater commandId commandType s) =
        calls s @ [Call ByTimeout commandId (pc_handle cmd)
                     (Reject (''Command '' @ commandType @ '' timed out''))] \<and>
      (promise_state (calls s) (pc_handle cmd) = None \<longrightarrow>
         promise_state (calls (timeoutUpdater commandId commandType s)) (pc_handle cmd) =
           Some (Reject (''Command '' @ commandType @ '' timed out''))) \<and>
      (ack_commandId ack = commandId \<longrightarrow>
         ackUpdater now' ack (timeoutUpdater commandId commandType s) =
           timeoutUpdater commandId commandType s)) \<and>
   (t < written + 10000 \<longrightarrow>
      calls (run [Issue issuedAt rnd commandType, Written written 0, Elapse t] init_registry) = [] \<and>
      map fst (pendingCommands
        (run [Issue issuedAt rnd commandType, Written written 0, Elapse t] init_registry)) =
        [generateCommandId issuedAt rnd]) \<and>
   (written + 10000 \<le> t \<longrightarrow>
      calls (run [Issue issuedAt rnd commandType, Written written 0, Elapse t] init_registry) =
        [Call ByTimeout (generateCommandId issuedAt rnd) 0
           (Reject (''Command '' @ commandType @ '' timed out''))] \<and>
      promise_state
        (calls (run [Issue issuedAt rnd commandType, Written written 0, Elapse t] init_registry))
        0 = Some (Reject (''Command '' @ commandType @ '' timed out'')) \<and>
      pendingCommands
        (run [Issue issuedAt rnd commandType, Written written 0, Elapse t] init_registry) = [])"
proof (intro conjI impI)
  assume "map_of (awaiting s) h = Some (commandId, commandType)"
  then show "timers (sendCommandWithAck_written h now s) =
        timers s @ [(now + 10000, commandId, commandType)]"
    and "pendingCommands (sendCommandWithAck_written h now s) = pendingCommands s"
    and "calls (sendCommandWithAck_written h now s) = calls s"
    by (simp_all add: sendCommandWithAck_written_def)
next
  assume c: "map_of (pendingCommands s) commandId = Some cmd"
  then show "pendingCommands (timeoutUpdater commandId commandType s) =
        AList.delete commandId (pendingCommands s)"
    and e: "calls (timeoutUpdater commandId commandType s) =
        calls s @ [Call ByTimeout commandId (pc_handle cmd)
                     (Reject (''Command '' @ commandType @ '' timed out''))]"
    by (simp_all add: timeoutUpdater_def)
  from c show n: "map_of (pendingCommands (timeoutUpdater commandId commandType s)) commandId = None"
    by (simp add: timeoutUpdater_def delete_conv')
  {
    assume "promise_state (calls s) (pc_handle cmd) = None"
    then show "promise_state (calls (timeoutUpdater commandId commandType s)) (pc_handle cmd) =
           Some (Reject (''Command '' @ commandType @ '' timed out''))"
      unfolding e by (rule promise_state_append)
  }
  {
    assume "ack_commandId ack = commandId"
    with n show "ackUpdater now' ack (timeoutUpdater commandId commandType s) =
           timeoutUpdater commandId commandType s"
      by (intro ackUpdater_absent) simp
  }
next
  assume "t < written + 10000"
  then show "calls (run [Issue issuedAt rnd commandType, Written written 0, Elapse t]
        init_registry) = []"
    and "map fst (pendingCommands
        (run [Issue issuedAt rnd commandType, Written written 0, Elapse t] init_registry)) =
        [generateCommandId issuedAt rnd]"
    by (simp_all add: scenario_before_deadline)
next
  assume "written + 10000 \<le> t"
  then show "calls (run [Issue issuedAt rnd commandType, Written written 0, Elapse t]
        init_registry) =
        [Call ByTimeout (generateCommandId issuedAt rnd) 0
           (Reject (''Command '' @ commandType @ '' timed out''))]"
    and "promise_state
        (calls (run [Issue issuedAt rnd commandType, Written written 0, Elapse t] init_registry))
        0 = Some (Reject (''Command '' @ commandType @ '' timed out''))"
    and "pendingCommands
        (run [Issue issuedAt rnd commandType, Written written 0, Elapse t] init_registry) = []"
    by (simp_all add: scenario_after_deadline promise_state_def)
qed
text \<open>
  The amended claim C2 on a command issued at time 0 whose write completes at time 3000:
  the timeout is armed for 13000, nothing has happened at 10000, and at 13000 the promise
  is rejected; an acknowledgment after the timeout changes nothing.
\<close>

theorem timeout_rejects_and_removes_witness:
  "timers (sendCommandWithAck_written 0 3000
      (run [Issue 0 ''0.abc'' ''RELAY_CONTROL''] init_registry)) =
     [(13000, ''cmd_0_abc'', ''RELAY_CONTROL'')] \<and>
   calls (timeoutUpdater ''cmd_0_abc'' ''RELAY_CONTROL''
      (run [Issue 0 ''0.abc'' ''RELAY_CONTROL''] init_registry)) =
     [Call ByTimeout ''cmd_0_abc'' 0 (Reject ''Command RELAY_CONTROL timed out'')] \<and>
   ackUpdater 14000
      \<lparr> ack_commandId = ''cmd_0_abc'', ack_type = ''RELAY_CONTROL'', ack_result = ''OK'',
        ack_processed = True, ack_timestamp = 7, ack_deviceTime = 7 \<rparr>
      (timeoutUpdater ''cmd_0_abc'' ''RELAY_CONTROL''
         (run [Issue 0 ''0.abc'' ''RELAY_CONTROL''] init_registry)) =
     timeoutUpdater ''cmd_0_abc'' ''RELAY_CONTROL''
       (run [Issue 0 ''0.abc'' ''RELAY_CONTROL''] init_registry) \<and>
   calls (run [Issue 0 ''0.abc'' ''RELAY_CONTROL'', Written 3000 0, Elapse 10000]
            init_registry) = [] \<and>
   calls (run [Issue 0 ''0.abc'' ''RELAY_CONTROL'', Written 3000 0, Elapse 13000]
            init_registry) =
     [Call ByTimeout ''cmd_0_abc'' 0 (Reject ''Command RELAY_CONTROL timed out'')]"
proof -
  let ?ack = "\<lparr> ack_commandId = ''cmd_0_abc'', ack_type = ''RELAY_CONTROL'',
    ack_result = ''OK'', ack_processed = True, ack_timestamp = 7, ack_deviceTime = 7 \<rparr>"
  let ?cmd = "\<lparr> pc_id = ''cmd_0_abc'', pc_type = ''RELAY_CONTROL'', pc_timestamp = 0,
    pc_handle = 0 \<rparr>"
  let ?s = "run [Issue 0 ''0.abc'' ''RELAY_CONTROL''] init_registry"
  have id: "generateCommandId 0 ''0.abc'' = ''cmd_0_abc''"
    by (simp add: generateCommandId_def decimal.simps [of 0] digit_char_def substr_def)
  have s: "?s = \<lparr> pendingCommands = [(''cmd_0_abc'', ?cmd)], calls = [],
      awaiting = [(0, ''cmd_0_abc'', ''RELAY_CONTROL'')], timers = [], ackDeletions = [],
      nextHandle = 1 \<rparr>"
    by (simp add: run_def step_def fireTimers_def sendCommandWithAck_register_def
        init_registry_def id Let_def)
  have a: "map_of (awaiting ?s) 0 = Some (''cmd_0_abc'', ''RELAY_CONTROL'')"
    and p: "map_of (pendingCommands ?s) ''cmd_0_abc'' = Some ?cmd"
    and k: "ack_commandId ?ack = ''cmd_0_abc''"
    and u: "promise_state (calls ?s) (pc_handle ?cmd) = None"
    unfolding s by (simp_all add: promise_state_def)
  have b: "(10000::nat) < 3000 + 10000" and d: "(3000::nat) + 10000 \<le> 13000"
    by simp_all
  from timeout_rejects_and_removes [where s = ?s and h = 0 and now = 3000
      and commandId = "''cmd_0_abc''" and commandType = "''RELAY_CONTROL''"] a
  have 1: "timers (sendCommandWithAck_written 0 3000 ?s) =
      timers ?s @ [(3000 + 10000, ''cmd_0_abc'', ''RELAY_CONTROL'')]"
    by blast
  from timeout_rejects_and_removes [where s = ?s and cmd = ?cmd and ack = ?ack
      and now' = 14000 and commandId = "''cmd_0_abc''" and commandType = "''RELAY_CONTROL''"]
    p k u
  have 2: "calls (timeoutUpdater ''cmd_0_abc'' ''RELAY_CONTROL'' ?s) =
      calls ?s @ [Call ByTimeout ''cmd_0_abc'' (pc_handle ?cmd)
                    (Reject (''Command '' @ ''RELAY_CONTROL'' @ '' timed out''))]"
    and 3: "ackUpdater 14000 ?ack (timeoutUpdater ''cmd_0_abc'' ''RELAY_CONTROL'' ?s) =
      timeoutUpdater ''cmd_0_abc'' ''RELAY_CONTROL'' ?s"
    by blast+
  from timeout_rejects_and_removes [where t = 10000 and written = 3000 and issuedAt = 0
      and rnd = "''0.abc''" and commandType = "''RELAY_CONTROL''"] b
  have 4: "calls (run [Issue 0 ''0.abc'' ''RELAY_CONTROL'', Written 3000 0, Elapse 10000]
      init_registry) = []"
    by blast
  from timeout_rejects_and_removes [where t = 13000 and written = 3000 and issuedAt = 0
      and rnd = "''0.abc''" and commandType = "''RELAY_CONTROL''"] d
  have 5: "calls (run [Issue 0 ''0.abc'' ''RELAY_CONTROL'', Written 3000 0, Elapse 13000]
      init_registry) =
      [Call ByTimeout (generateCommandId 0 ''0.abc'') 0
         (Reject (''Command '' @ ''RELAY_CONTROL'' @ '' timed out''))]"
    by blast
  have t1: "timers (sendCommandWithAck_written 0 3000 ?s) =
      [(13000, ''cmd_0_abc'', ''RELAY_CONTROL'')]"
    using 1 unfolding s by simp
  have t2: "calls (timeoutUpdater ''cmd_0_abc'' ''RELAY_CONTROL'' ?s) =
      [Call ByTimeout ''cmd_0_abc'' 0 (Reject ''Command RELAY_CONTROL timed out'')]"
    using 2 unfolding s by simp
  have t5: "calls (run [Issue 0 ''0.abc'' ''RELAY_CONTROL'', Written 3000 0, Elapse 13000]
      init_registry) =
      [Call ByTimeout ''cmd_0_abc'' 0 (Reject ''Command RELAY_CONTROL timed out'')]"
    using 5 unfolding id by simp
  from t1 t2 3 4 t5 show ?thesis
    by (intro conjI)
qed

text \<open>
  Claim C2 as stated fails: the command is issued at time 0 and its write completes at
  3000. At 10000, ten seconds after issuance and without any acknowledgment, no promise
  has been rejected. An acknowledgment at 11000 then resolves the promise, and the
  timeout at 13000 finds no entry.
\<close>

theorem timeout_from_issuance_counterexample:
  "calls (run [Issue 0 ''0.abc'' ''RELAY_CONTROL'', Written 3000 0, Elapse 10000]
            init_registry) = [] \<and>
   promise_state
     (calls (run [Issue 0 ''0.abc'' ''RELAY_CONTROL'', Written 3000 0, Elapse 10000,
                  AckSnapshot 11000
                    [\<lparr> ack_commandId = ''cmd_0_abc'', ack_type = ''RELAY_CONTROL'',
                       ack_result = ''OK'', ack_processed = True, ack_timestamp = 10,
                       ack_deviceTime = 10 \<rparr>],
                  Elapse 60000] init_registry)) 0 =
     Some (Resolve \<lparr> ack_commandId = ''cmd_0_abc'', ack_type = ''RELAY_CONTROL'',
                     ack_result = ''OK'', ack_processed = True, ack_timestamp = 10,
                     ack_deviceTime = 10 \<rparr>)"
proof -
  have id: "generateCommandId 0 ''0.abc'' = ''cmd_0_abc''"
    by (simp add: generateCommandId_def decimal.simps [of 0] digit_char_def substr_def)
  show ?thesis
    by (simp add: run_def step_def fireTimers_def sendCommandWithAck_register_def
        sendCommandWithAck_written_def onAckSnapshot_def ackUpdater_def timeoutUpdater_def
        init_registry_def id Let_def AList.delete_eq promise_state_def)
qed

section \<open>Properties of \<^verbatim>\<open>sendCommand\<close> in \<^verbatim>\<open>src/app/index.tsx\<close>\<close>

lemma map_of_append_fresh:
  "k \<notin> fst ` set xs \<Longrightarrow> map_of (xs @ [(k, v)]) k = Some v"
  by (induction xs) auto

lemma sendCommand_written_fresh:
  assumes "ix_nextHandle s \<notin> fst ` set (ix_awaiting s)"
  shows "sendCommand_written (ix_nextHandle s) written
           (sendCommand_register issuedAt rnd commandType s) =
         s\<lparr> ix_pendingCommands :=
               AList.update (generateCommandId issuedAt rnd)
                 \<lparr> pc_id = generateCommandId issuedAt rnd, pc_type = commandType,
                   pc_timestamp = issuedAt, pc_handle = ix_nextHandle s \<rparr>
                 (ix_pendingCommands s),
            ix_awaiting := AList.delete (ix_nextHandle s)
               (ix_awaiting s @
                [(ix_nextHandle s, generateCommandId issuedAt rnd, commandType)]),
            ix_nextHandle := ix_nextHandle s + 1,
            ix_timers := ix_timers s @
               [(written + 10000, generateCommandId issuedAt rnd, commandType, ix_nextHandle s)],
            ix_calls := ix_calls s @ [(ix_nextHandle s, IxResolve)] \<rparr>"
  using map_of_append_fresh [OF assms]
  by (simp add: sendCommand_written_def sendCommand_register_def Let_def)

lemma sendCommand_scenario:
  "sendCommand_written 0 written (sendCommand_register issuedAt rnd commandType ix_init) =
     \<lparr> ix_pendingCommands =
         [(generateCommandId issuedAt rnd,
           \<lparr> pc_id = generateCommandId issuedAt rnd, pc_type = commandType,
             pc_timestamp = issuedAt, pc_handle = 0 \<rparr>)],
       ix_calls = [(0, IxResolve)], ix_awaiting = [],
       ix_timers = [(written + 10000, generateCommandId issuedAt rnd, commandType, 0)],
       ix_nextHandle = 1 \<rparr>"
  by (simp add: sendCommand_written_def sendCommand_register_def ix_init_def Let_def
      AList.delete_eq)

text \<open>
  Claim C10. In the variant of \<^verbatim>\<open>src/app/index.tsx\<close>, once the store write of a command
  has succeeded the promise returned by \<^verbatim>\<open>sendCommand\<close> is resolved, without any
  acknowledgment, while the entry of the command is in the pending map and its timeout is
  armed for 10000 ms later. When the timeout runs it removes the entry and calls
  \<^verbatim>\<open>reject\<close>, and the promise stays resolved. For a single command: running the timers
  before the deadline changes nothing, so the entry stays; running them at the deadline or
  later leaves the map empty and the promise resolved.
\<close>

theorem sendCommand_resolves_at_write:
  "(ix_nextHandle s \<notin> fst ` set (ix_awaiting s) \<and> ix_nextHandle s \<notin> fst ` set (ix_calls s) \<longrightarrow>
      (let h = ix_nextHandle s;
           commandId = generateCommandId issuedAt rnd;
           s1 = sendCommand_written h written (sendCommand_register issuedAt rnd commandType s);
           s2 = ix_timeoutUpdater commandId commandType h s1
       in ix_promise_state (ix_calls s1) h = Some IxResolve \<and>
          map_of (ix_pendingCommands s1) commandId =
            Some \<lparr> pc_id = commandId, pc_type = commandType, pc_timestamp = issuedAt,
                   pc_handle = h \<rparr> \<and>
          ix_timers s1 = ix_timers s @ [(written + 10000, commandId, commandType, h)] \<and>
          map_of (ix_pendingCommands s2) commandId = None \<and>
          ix_calls s2 =
            ix_calls s1 @ [(h, IxReject (''Command '' @ commandType @ '' timed out''))] \<and>
          ix_promise_state (ix_calls s2) h = Some IxResolve)) \<and>
   (t < written + 10000 \<longrightarrow>
      ix_fireTimers t
        (sendCommand_written 0 written (sendCommand_register issuedAt rnd commandType ix_init)) =
      sendCommand_written 0 written (sendCommand_register issuedAt rnd commandType ix_init)) \<and>
   (written + 10000 \<le> t \<longrightarrow>
      ix_pendingCommands (ix_fireTimers t
        (sendCommand_written 0 written
           (sendCommand_register issuedAt rnd commandType ix_init))) = [] \<and>
      ix_calls (ix_fireTimers t
        (sendCommand_written 0 written
           (sendCommand_register issuedAt rnd commandType ix_init))) =
        [(0, IxResolve), (0, IxReject (''Command '' @ commandType @ '' timed out''))] \<and>
      ix_promise_state (ix_calls (ix_fireTimers t
        (sendCommand_written 0 written
           (sendCommand_register issuedAt rnd commandType ix_init)))) 0 = Some IxResolve)"
proof (intro conjI impI)
  assume f: "ix_nextHandle s \<notin> fst ` set (ix_awaiting s) \<and>
    ix_nextHandle s \<notin> fst ` set (ix_calls s)"
  then have a: "ix_nextHandle s \<notin> fst ` set (ix_awaiting s)" by simp
  from f have "map_of (ix_calls s @ [(ix_nextHandle s, IxResolve)]) (ix_nextHandle s) =
      Some IxResolve"
    by (intro map_of_append_fresh) simp
  then show "let h = ix_nextHandle s;
           commandId = generateCommandId issuedAt rnd;
           s1 = sendCommand_written h written (sendCommand_register issuedAt rnd commandType s);
           s2 = ix_timeoutUpdater commandId commandType h s1
       in ix_promise_state (ix_calls s1) h = Some IxResolve \<and>
          map_of (ix_pendingCommands s1) commandId =
            Some \<lparr> pc_id = commandId, pc_type = commandType, pc_timestamp = issuedAt,
                   pc_handle = h \<rparr> \<and>
          ix_timers s1 = ix_timers s @ [(written + 10000, commandId, commandType, h)] \<and>
          map_of (ix_pendingCommands s2) commandId = None \<and>
          ix_calls s2 =
            ix_calls s1 @ [(h, IxReject (''Command '' @ commandType @ '' timed out''))] \<and>
          ix_promise_state (ix_calls s2) h = Some IxResolve"
    unfolding Let_def sendCommand_written_fresh [OF a]
    by (simp add: ix_promise_state_def ix_timeoutUpdater_def update_conv' delete_conv'
        map_add_def)
next
  assume "t < written + 10000"
  then show "ix_fireTimers t
        (sendCommand_written 0 written (sendCommand_register issuedAt rnd commandType ix_init)) =
      sendCommand_written 0 written (sendCommand_register issuedAt rnd commandType ix_init)"
    unfolding sendCommand_scenario by (simp add: ix_fireTimers_def)
next
  assume "written + 10000 \<le> t"
  then show "ix_pendingCommands (ix_fireTimers t
        (sendCommand_written 0 written
           (sendCommand_register issuedAt rnd commandType ix_init))) = []"
    and "ix_calls (ix_fireTimers t
        (sendCommand_written 0 written
           (sendCommand_register issuedAt rnd commandType ix_init))) =
        [(0, IxResolve), (0, IxReject (''Command '' @ commandType @ '' timed out''))]"
    and "ix_promise_state (ix_calls (ix_fireTimers t
        (sendCommand_written 0 written
           (sendCommand_register issuedAt rnd commandType ix_init)))) 0 = Some IxResolve"
    unfolding sendCommand_scenario
    by (simp_all add: ix_fireTimers_def ix_timeoutUpdater_def ix_promise_state_def
        AList.delete_eq)
qed

text \<open>
  Claim C10 on the first command of a session, issued at time 0 and written at time 40:
  the promise is resolved at once, the entry is still pending at 10039 and gone at 10040.
\<close>

theorem sendCommand_resolves_at_write_witness:
  "ix_promise_state
     (ix_calls (sendCommand_written 0 40 (sendCommand_register 0 ''0.abc'' ''RELAY_CONTROL'' ix_init)))
     0 = Some IxResolve \<and>
   map fst (ix_pendingCommands (ix_fireTimers 10039
     (sendCommand_written 0 40 (sendCommand_register 0 ''0.abc'' ''RELAY_CONTROL'' ix_init)))) =
     [''cmd_0_abc''] \<and>
   ix_pendingCommands (ix_fireTimers 10040
     (sendCommand_written 0 40 (sendCommand_register 0 ''0.abc'' ''RELAY_CONTROL'' ix_init))) = [] \<and>
   ix_promise_state (ix_calls (ix_fireTimers 10040
     (sendCommand_written 0 40 (sendCommand_register 0 ''0.abc'' ''RELAY_CONTROL'' ix_init))))
     0 = Some IxResolve"
proof -
  let ?s1 = "sendCommand_written 0 40 (sendCommand_register 0 ''0.abc'' ''RELAY_CONTROL'' ix_init)"
  have id: "generateCommandId 0 ''0.abc'' = ''cmd_0_abc''"
    by (simp add: generateCommandId_def decimal.simps [of 0] digit_char_def substr_def)
  have f: "ix_nextHandle ix_init \<notin> fst ` set (ix_awaiting ix_init) \<and>
      ix_nextHandle ix_init \<notin> fst ` set (ix_calls ix_init)"
    and h: "ix_nextHandle ix_init = 0"
    by (simp_all add: ix_init_def)
  have b: "(10039::nat) < 40 + 10000" and d: "(40::nat) + 10000 \<le> 10040"
    by simp_all
  note t = sendCommand_resolves_at_write [where s = ix_init and issuedAt = 0
      and rnd = "''0.abc''" and commandType = "''RELAY_CONTROL''" and written = 40]
  from t [where t = 10039] f have 1: "ix_promise_state (ix_calls ?s1) 0 = Some IxResolve"
    unfolding Let_def h by blast
  from t [where t = 10039] b have 2: "ix_fireTimers 10039 ?s1 = ?s1"
    by blast
  from t [where t = 10040] d have 3: "ix_pendingCommands (ix_fireTimers 10040 ?s1) = []"
    and 4: "ix_promise_state (ix_calls (ix_fireTimers 10040 ?s1)) 0 = Some IxResolve"
    by blast+
  have 5: "map fst (ix_pendingCommands ?s1) = [''cmd_0_abc'']"
    by (simp add: sendCommand_written_def sendCommand_register_def ix_init_def Let_def id)
  from 1 2 3 4 5 show ?thesis
    by simp
qed

end
